theory Spec2Isabelle
  imports Complex_Main
begin

section \<open>The designer's graph layout (GraphLayout.ts)\<close>

text \<open>
  A shallow embedding of \<^verbatim>\<open>packages/web/src/designer/GraphLayout.ts\<close>.

  Conventions of the model.
  \<^item> JavaScript numbers are modelled by the real numbers: rounding, overflow and the
    infinities of IEEE doubles are outside the model. Where the source would compute with
    \<^verbatim>\<open>undefined\<close> and obtain NaN, the model says so explicitly (\<open>NaN\<close>, \<open>NotANumber\<close>).
  \<^item> A \<^verbatim>\<open>GraphNode\<close> is an object with identity: \<^verbatim>\<open>addEdge\<close> and \<^verbatim>\<open>initialize\<close> compare
    nodes with \<^verbatim>\<open>==\<close>, and \<^verbatim>\<open>initialize\<close> mutates them. The graph therefore carries the
    store of its node objects (\<open>objects\<close>, a reference is an index into it); the
    dictionary \<open>nodes\<close> and the edges hold references.
  \<^item> A dictionary \<^verbatim>\<open>{ [designerId: string]: T }\<close> is a plain object. Its own keys are an
    association list in enumeration order: an assignment to a present key keeps the key's
    place, an assignment to a new key appends. A read \<^verbatim>\<open>dict[k]\<close> and a test \<^verbatim>\<open>k in dict\<close>
    also see the properties the object inherits from \<^verbatim>\<open>Object.prototype\<close> (\<open>dict_get\<close>);
    \<^verbatim>\<open>Object.values\<close>, \<^verbatim>\<open>_.values\<close>, \<^verbatim>\<open>_.mapValues\<close> and \<^verbatim>\<open>_.isEmpty\<close> see the own keys only.
    The numeric-key reordering of JavaScript objects and the assignment to the key
    \<^verbatim>\<open>__proto__\<close>, which replaces the prototype instead of adding a key, are outside the
    model.
\<close>

subsection \<open>Graph model\<close>

type_synonym ref = nat

text \<open>The names of the properties of \<^verbatim>\<open>Object.prototype\<close>, which every plain object
  inherits. Each of them holds an object (a function, or the prototype itself under
  \<^verbatim>\<open>__proto__\<close>): a truthy value, different from every \<^verbatim>\<open>GraphNode\<close>, without any of the
  properties or methods of the classes of this file.\<close>

definition protoNames :: "string list" where
  "protoNames =
     [''constructor'', ''__defineGetter__'', ''__defineSetter__'', ''hasOwnProperty'',
      ''__lookupGetter__'', ''__lookupSetter__'', ''isPrototypeOf'', ''propertyIsEnumerable'',
      ''toString'', ''valueOf'', ''__proto__'', ''toLocaleString'']"

text \<open>What \<^verbatim>\<open>dict[k]\<close> finds: the value of the own key, or else the inherited property of
  that name, or else \<^verbatim>\<open>undefined\<close>.\<close>

datatype 'v lookup = Own 'v | Inherited string | Undefined

definition dict_get :: "(string \<times> 'v) list \<Rightarrow> string \<Rightarrow> 'v lookup" where
  "dict_get d k =
     (case map_of d k of
        Some v \<Rightarrow> Own v
      | None \<Rightarrow> if k \<in> set protoNames then Inherited k else Undefined)"

text \<open>What an edge end or a neighbour entry therefore holds: a node object of the store,
  or the object inherited under the given name, which \<^verbatim>\<open>addEdge\<close> takes for a node. Two of
  them are the same object exactly when they are equal.\<close>

datatype objref = Obj ref | Proto string

record GraphNode =
  designerId :: string
  width :: real
  height :: real
  neightboors :: "objref list"
  radius :: "real option"

record GraphEdge =
  source :: objref
  target :: objref

record GraphDefinition =
  objects :: "GraphNode list"
  nodes :: "(string \<times> ref) list"
  edges :: "GraphEdge list"

definition emptyGraph :: GraphDefinition where
  "emptyGraph = \<lparr>objects = [], nodes = [], edges = []\<rparr>"

text \<open>\<^verbatim>\<open>dict[k] = v\<close> on a dictionary in enumeration order.\<close>

fun dict_set :: "string \<Rightarrow> 'v \<Rightarrow> (string \<times> 'v) list \<Rightarrow> (string \<times> 'v) list" where
  "dict_set k v [] = [(k, v)]"
| "dict_set k v (p # d) = (if fst p = k then (k, v) # d else p # dict_set k v d)"

text \<open>\<^verbatim>\<open>new GraphNode(this, designerId, width, height)\<close>: no neighbours yet, the radius is
  \<^verbatim>\<open>undefined\<close> until \<^verbatim>\<open>initialize\<close>.\<close>

definition newGraphNode :: "string \<Rightarrow> real \<Rightarrow> real \<Rightarrow> GraphNode" where
  "newGraphNode i w h =
     \<lparr>designerId = i, width = w, height = h, neightboors = [], radius = None\<rparr>"

definition addNode :: "string \<Rightarrow> real \<Rightarrow> real \<Rightarrow> GraphDefinition \<Rightarrow> GraphDefinition" where
  "addNode i w h g =
     g\<lparr>objects := objects g @ [newGraphNode i w h],
       nodes := dict_set i (length (objects g)) (nodes g)\<rparr>"

text \<open>\<^verbatim>\<open>this.nodes[id]\<close> as \<^verbatim>\<open>addEdge\<close> reads it: \<open>None\<close> when it is \<^verbatim>\<open>undefined\<close>, the only falsy
  value it can have.\<close>

definition nodeAt :: "GraphDefinition \<Rightarrow> string \<Rightarrow> objref option" where
  "nodeAt g k =
     (case dict_get (nodes g) k of
        Own r \<Rightarrow> Some (Obj r)
      | Inherited n \<Rightarrow> Some (Proto n)
      | Undefined \<Rightarrow> None)"

text \<open>The predicate of \<^verbatim>\<open>this.edges.find(...)\<close> in \<^verbatim>\<open>addEdge\<close>.\<close>

definition edgeJoins :: "objref \<Rightarrow> objref \<Rightarrow> GraphEdge \<Rightarrow> bool" where
  "edgeJoins s t x \<longleftrightarrow> (source x = s \<and> target x = t) \<or> (target x = s \<and> source x = t)"

definition addEdge :: "string \<Rightarrow> string \<Rightarrow> GraphDefinition \<Rightarrow> GraphDefinition" where
  "addEdge sourceId targetId g =
     (case nodeAt g sourceId of
        None \<Rightarrow> g
      | Some s \<Rightarrow>
          (case nodeAt g targetId of
             None \<Rightarrow> g
           | Some t \<Rightarrow>
               (case find (edgeJoins s t) (edges g) of
                  None \<Rightarrow> g\<lparr>edges := edges g @ [\<lparr>source = s, target = t\<rparr>]\<rparr>
                | Some x \<Rightarrow> g)))"

text \<open>The body of the inner loop of \<^verbatim>\<open>GraphDefinition.initialize\<close> for the node object
  \<open>r\<close> and one edge: two pushes, each guarded by \<^verbatim>\<open>includes\<close>.\<close>

definition scanEdge :: "ref \<Rightarrow> objref list \<Rightarrow> GraphEdge \<Rightarrow> objref list" where
  "scanEdge r ns e =
     (let ns1 = (if source e = Obj r \<and> target e \<notin> set ns then ns @ [target e] else ns)
      in if target e = Obj r \<and> source e \<notin> set ns1 then ns1 @ [source e] else ns1)"

text \<open>\<^verbatim>\<open>GraphNode.initialize\<close>.\<close>

definition node_initialize :: "GraphNode \<Rightarrow> GraphNode" where
  "node_initialize n =
     n\<lparr>radius := Some (sqrt ((width n * width n) / 4 + (height n * height n) / 4))\<rparr>"

definition initNode :: "GraphEdge list \<Rightarrow> ref \<Rightarrow> GraphNode \<Rightarrow> GraphNode" where
  "initNode es r n = node_initialize (n\<lparr>neightboors := foldl (scanEdge r) (neightboors n) es\<rparr>)"

text \<open>One round of the outer loop of \<^verbatim>\<open>GraphDefinition.initialize\<close>: the node object \<open>r\<close> is
  updated in the store.\<close>

definition initStep :: "GraphEdge list \<Rightarrow> GraphNode list \<Rightarrow> ref \<Rightarrow> GraphNode list" where
  "initStep es objs r = objs[r := initNode es r (objs ! r)]"

definition initialize :: "GraphDefinition \<Rightarrow> GraphDefinition" where
  "initialize g = g\<lparr>objects := foldl (initStep (edges g)) (objects g) (map snd (nodes g))\<rparr>"

text \<open>The calls a client makes on a fresh \<^verbatim>\<open>new GraphDefinition()\<close>.\<close>

datatype graph_call = AddNode string real real | AddEdge string string

fun call :: "GraphDefinition \<Rightarrow> graph_call \<Rightarrow> GraphDefinition" where
  "call g (AddNode i w h) = addNode i w h g"
| "call g (AddEdge s t) = addEdge s t g"

definition build :: "graph_call list \<Rightarrow> GraphDefinition" where
  "build cs = foldl call emptyGraph cs"

text \<open>How many edges of the list join the two objects, in either direction.\<close>

definition edgesBetween :: "objref \<Rightarrow> objref \<Rightarrow> GraphEdge list \<Rightarrow> nat" where
  "edgesBetween s t es = length (filter (edgeJoins s t) es)"

subsection \<open>Constants\<close>

definition MIN_NODE_DISTANCE :: real where "MIN_NODE_DISTANCE = 50"
definition SPRING_LENGTH :: real where "SPRING_LENGTH = 100"
definition SPRINGY_STEPS :: nat where "SPRINGY_STEPS = 50"
definition GRAVITY :: real where "GRAVITY = 0.01"
definition REPULSION :: real where "REPULSION = 500000"
definition MAX_FORCE_SIZE :: real where "MAX_FORCE_SIZE = 100"
definition NODE_MARGIN :: real where "NODE_MARGIN = 20"
definition MOVE_STEP :: real where "MOVE_STEP = 20"
definition MOVE_BIG_STEP :: real where "MOVE_BIG_STEP = 70"
definition MOVE_STEP_COUNT :: nat where "MOVE_STEP_COUNT = 1000"
definition MINIMAL_SCORE_BENEFIT :: real where "MINIMAL_SCORE_BENEFIT = 1"

subsection \<open>Geometry (designerMath)\<close>

text \<open>
  \<^verbatim>\<open>GraphLayout.ts\<close> imports \<^verbatim>\<open>IBoxBounds\<close>, \<^verbatim>\<open>Vector2D\<close>, \<^verbatim>\<open>rectangleDistance\<close> and
  \<^verbatim>\<open>rectangleIntersectArea\<close> from \<^verbatim>\<open>./designerMath\<close>, a module that is not among the sources
  at hand. Its parts are modelled from the specification.
\<close>

record IBoxBounds =
  left :: real
  top' :: real
  right :: real
  bottom :: real

record Vector2D =
  vx :: real
  vy :: real

text \<open>Modelled from the spec: \<^verbatim>\<open>Vector2D.add\<close> is missing; the
  sum of two vectors.\<close>

definition add :: "Vector2D \<Rightarrow> Vector2D \<Rightarrow> Vector2D" where
  "add v v2 = \<lparr>vx = vx v + vx v2, vy = vy v + vy v2\<rparr>"

text \<open>Modelled from the spec: \<^verbatim>\<open>Vector2D.subtract\<close> is missing;
  the difference of two vectors.\<close>

definition subtract :: "Vector2D \<Rightarrow> Vector2D \<Rightarrow> Vector2D" where
  "subtract v v2 = \<lparr>vx = vx v - vx v2, vy = vy v - vy v2\<rparr>"

text \<open>Modelled from the spec: \<^verbatim>\<open>Vector2D.multiply\<close> is missing;
  the vector scaled by a number.\<close>

definition multiply :: "Vector2D \<Rightarrow> real \<Rightarrow> Vector2D" where
  "multiply v n = \<lparr>vx = vx v * n, vy = vy v * n\<rparr>"

text \<open>Modelled from the spec: \<^verbatim>\<open>Vector2D.magnitude\<close> is
  missing; the Euclidean length.\<close>

definition magnitude :: "Vector2D \<Rightarrow> real" where
  "magnitude v = sqrt (vx v * vx v + vy v * vy v)"

text \<open>Modelled from the spec: the unit vector of a vector that is not zero, which is the
  vector scaled by the inverse of its length.\<close>

definition unitVector :: "Vector2D \<Rightarrow> Vector2D" where
  "unitVector v = \<lparr>vx = vx v / magnitude v, vy = vy v / magnitude v\<rparr>"

text \<open>Modelled from the spec: \<^verbatim>\<open>Vector2D.normalise\<close> is
  missing; the unit vector of the same direction. The zero vector has no direction and
  the spec does not say what it normalises to: the model gives no result for it.\<close>

definition normalise :: "Vector2D \<Rightarrow> Vector2D option" where
  "normalise v = (if magnitude v = 0 then None else Some (unitVector v))"

text \<open>Modelled from the spec: \<^verbatim>\<open>rectangleDistance\<close> is missing;
  the rectangle-to-rectangle distance, that is the distance between the closest points of
  the two boxes, 0 when they touch or overlap.\<close>

definition rectangleDistance :: "'a IBoxBounds_scheme \<Rightarrow> 'b IBoxBounds_scheme \<Rightarrow> real" where
  "rectangleDistance r1 r2 =
     (let dx = max 0 (max (left r2 - right r1) (left r1 - right r2));
          dy = max 0 (max (top' r2 - bottom r1) (top' r1 - bottom r2))
      in sqrt (dx * dx + dy * dy))"

text \<open>Modelled from the spec: \<^verbatim>\<open>rectangleIntersectArea\<close> is
  missing; the area of the intersection of the two boxes, 0 when they do not overlap.\<close>

definition rectangleIntersectArea :: "'a IBoxBounds_scheme \<Rightarrow> 'b IBoxBounds_scheme \<Rightarrow> real" where
  "rectangleIntersectArea r1 r2 =
     (let w = min (right r1) (right r2) - max (left r1) (left r2);
          h = min (bottom r1) (bottom r2) - max (top' r1) (top' r2)
      in if 0 < w \<and> 0 < h then w * h else 0)"

subsection \<open>Layout nodes\<close>

text \<open>
  A \<^verbatim>\<open>LayoutNode\<close> is itself a box (\<^verbatim>\<open>rectangleDistance(this, node)\<close>), so the record extends
  \<open>IBoxBounds\<close>. Its fields \<^verbatim>\<open>x\<close>, \<^verbatim>\<open>y\<close> are \<open>cx\<close>, \<open>cy\<close> here. The \<^verbatim>\<open>GraphNode\<close> it points
  to is read for \<^verbatim>\<open>designerId\<close>, \<^verbatim>\<open>width\<close> and \<^verbatim>\<open>height\<close> only, which nothing assigns after
  the constructor, so the layout node keeps it by value.
\<close>

record LayoutNode = IBoxBounds +
  node :: GraphNode
  cx :: real
  cy :: real
  position :: Vector2D
  paddedRect :: IBoxBounds

definition newLayoutNode :: "GraphNode \<Rightarrow> real \<Rightarrow> real \<Rightarrow> LayoutNode" where
  "newLayoutNode n x y =
     \<lparr>left = x - width n / 2,
      top' = y - height n / 2,
      right = x + width n / 2,
      bottom = y + height n / 2,
      node = n, cx = x, cy = y,
      position = \<lparr>vx = x, vy = y\<rparr>,
      paddedRect = \<lparr>left = (x - width n / 2) - NODE_MARGIN,
                    top' = (y - height n / 2) - NODE_MARGIN,
                    right = (x + width n / 2) + NODE_MARGIN,
                    bottom = (y + height n / 2) + NODE_MARGIN\<rparr>\<rparr>"

definition translate :: "LayoutNode \<Rightarrow> real \<Rightarrow> real \<Rightarrow> LayoutNode" where
  "translate n dx dy = newLayoutNode (node n) (cx n + dx) (cy n + dy)"

definition distanceTo :: "LayoutNode \<Rightarrow> LayoutNode \<Rightarrow> real" where
  "distanceTo n m = rectangleDistance n m"

definition intersectArea :: "LayoutNode \<Rightarrow> LayoutNode \<Rightarrow> real" where
  "intersectArea n m = rectangleIntersectArea (paddedRect n) (paddedRect m)"

subsection \<open>Layouts\<close>

record LayoutEdge =
  edge :: GraphEdge
  edge_length :: real
  source_node :: LayoutNode
  target_node :: LayoutNode

text \<open>The layout refers to its graph; the graph is not changed while layouts are computed,
  so the layout keeps it by value.\<close>

record GraphLayout =
  graph :: GraphDefinition
  layout_nodes :: "(string \<times> LayoutNode) list"
  layout_edges :: "LayoutEdge list"

text \<open>\<open>TypeError\<close>: a method call or a property read on \<^verbatim>\<open>undefined\<close> or \<^verbatim>\<open>null\<close>, or the
  call of a method that the object does not have, throws.
  \<open>NotANumber\<close>: the source goes on with NaN coordinates, which no real number models.
  \<open>Unspecified\<close>: the source goes on with the normalised zero vector, of which the
  specification says nothing.\<close>

datatype error = TypeError | NotANumber | Unspecified

fun mapE :: "('a \<Rightarrow> error + 'b) \<Rightarrow> 'a list \<Rightarrow> error + 'b list" where
  "mapE f [] = Inr []"
| "mapE f (a # as) =
     (case f a of
        Inl e \<Rightarrow> Inl e
      | Inr b \<Rightarrow> (case mapE f as of Inl e \<Rightarrow> Inl e | Inr bs \<Rightarrow> Inr (b # bs)))"

text \<open>A loop over a list whose body may throw.\<close>

fun foldE :: "('s \<Rightarrow> 'a \<Rightarrow> error + 's) \<Rightarrow> 's \<Rightarrow> 'a list \<Rightarrow> error + 's" where
  "foldE f s [] = Inr s"
| "foldE f s (a # as) = (case f s a of Inl e \<Rightarrow> Inl e | Inr s' \<Rightarrow> foldE f s' as)"

text \<open>\<^verbatim>\<open>_.values\<close> and \<^verbatim>\<open>_.mapValues\<close> of a dictionary. The callback of \<^verbatim>\<open>_.mapValues\<close>
  may yield a node with NaN coordinates.\<close>

definition values_of :: "(string \<times> 'v) list \<Rightarrow> 'v list" where
  "values_of d = map snd d"

definition mapValues ::
    "('v \<Rightarrow> error + 'w) \<Rightarrow> (string \<times> 'v) list \<Rightarrow> error + (string \<times> 'w) list" where
  "mapValues f d =
     mapE (\<lambda>p. case f (snd p) of Inl e \<Rightarrow> Inl e | Inr w \<Rightarrow> Inr (fst p, w)) d"

text \<open>The property key that \<^verbatim>\<open>end.designerId\<close> gives for an edge end: an inherited object
  has no \<^verbatim>\<open>designerId\<close>, and \<^verbatim>\<open>undefined\<close> as a key is the string \<^verbatim>\<open>undefined\<close>.\<close>

fun endId :: "GraphNode list \<Rightarrow> objref \<Rightarrow> string" where
  "endId objs (Obj r) = designerId (objs ! r)"
| "endId objs (Proto n) = ''undefined''"

text \<open>The callback of \<^verbatim>\<open>this.graph.edges.map\<close> in \<^verbatim>\<open>fillEdges\<close>. When \<^verbatim>\<open>n1\<close> is
  \<^verbatim>\<open>undefined\<close> or an inherited object, \<^verbatim>\<open>n1.distanceTo(n2)\<close> throws. When \<^verbatim>\<open>n2\<close> is
  \<^verbatim>\<open>undefined\<close>, \<^verbatim>\<open>rectangleDistance\<close> throws on reading its bounds; when it is an inherited
  object, its bounds are \<^verbatim>\<open>undefined\<close> and the length is not a number.\<close>

definition layoutEdge :: "GraphLayout \<Rightarrow> GraphEdge \<Rightarrow> error + LayoutEdge" where
  "layoutEdge l e =
     (case dict_get (layout_nodes l) (endId (objects (graph l)) (source e)) of
        Undefined \<Rightarrow> Inl TypeError
      | Inherited k \<Rightarrow> Inl TypeError
      | Own n1 \<Rightarrow>
          (case dict_get (layout_nodes l) (endId (objects (graph l)) (target e)) of
             Undefined \<Rightarrow> Inl TypeError
           | Inherited k \<Rightarrow> Inl NotANumber
           | Own n2 \<Rightarrow>
               Inr \<lparr>edge = e, edge_length = distanceTo n1 n2,
                    source_node = n1, target_node = n2\<rparr>))"

definition fillEdges :: "GraphLayout \<Rightarrow> error + GraphLayout" where
  "fillEdges l =
     (case mapE (layoutEdge l) (edges (graph l)) of
        Inl e \<Rightarrow> Inl e
      | Inr es \<Rightarrow> Inr (l\<lparr>layout_edges := es\<rparr>))"

text \<open>\<^verbatim>\<open>new GraphLayout(graph)\<close>.\<close>

definition newGraphLayout :: "GraphDefinition \<Rightarrow> GraphLayout" where
  "newGraphLayout g = \<lparr>graph = g, layout_nodes = [], layout_edges = []\<rparr>"

definition changePositions ::
    "(LayoutNode \<Rightarrow> error + LayoutNode) \<Rightarrow> GraphLayout \<Rightarrow> error + GraphLayout" where
  "changePositions nodeFunc l =
     (case mapValues nodeFunc (layout_nodes l) of
        Inl e \<Rightarrow> Inl e
      | Inr ns \<Rightarrow> fillEdges ((newGraphLayout (graph l))\<lparr>layout_nodes := ns\<rparr>))"

subsection \<open>Force relaxation\<close>

text \<open>The own keys of \<^verbatim>\<open>ForceAlgorithmStep.nodeForces\<close>, read by key only.\<close>

type_synonym forces = "string \<rightharpoonup> Vector2D"

text \<open>\<^verbatim>\<open>applyForce\<close>. The test \<^verbatim>\<open>designerId in this.nodeForces\<close> also holds for a name
  inherited from \<^verbatim>\<open>Object.prototype\<close>; the inherited object then read has no method
  \<^verbatim>\<open>add\<close>, and the call throws.\<close>

definition applyForce :: "LayoutNode \<Rightarrow> Vector2D \<Rightarrow> forces \<Rightarrow> error + forces" where
  "applyForce n force nodeForces =
     (let size = magnitude force
      in case (if size > MAX_FORCE_SIZE
               then map_option (\<lambda>u. multiply u MAX_FORCE_SIZE) (normalise force)
               else Some force) of
           None \<Rightarrow> Inl Unspecified
         | Some force \<Rightarrow>
             (case nodeForces (designerId (node n)) of
                Some f \<Rightarrow> Inr (nodeForces(designerId (node n) \<mapsto> add f force))
              | None \<Rightarrow>
                  if designerId (node n) \<in> set protoNames then Inl TypeError
                  else Inr (nodeForces(designerId (node n) \<mapsto> force))))"

text \<open>The body of the inner loop of \<^verbatim>\<open>applyCoulombsLaw\<close> for the ordered pair \<open>(n1, n2)\<close>.\<close>

definition coulombPair :: "LayoutNode \<Rightarrow> forces \<Rightarrow> LayoutNode \<Rightarrow> error + forces" where
  "coulombPair n1 nodeForces n2 =
     (if designerId (node n1) = designerId (node n2) then Inr nodeForces
      else
        let d = subtract (position n1) (position n2)
        in case normalise d of
             None \<Rightarrow> Inl Unspecified
           | Some direction \<Rightarrow>
               (let distance = distanceTo n1 n2 + MIN_NODE_DISTANCE
                in case applyForce n1
                          (multiply direction ((0.5 * REPULSION) / (distance * distance)))
                          nodeForces of
                     Inl e \<Rightarrow> Inl e
                   | Inr nodeForces \<Rightarrow>
                       applyForce n2
                         (multiply direction ((- 0.5 * REPULSION) / (distance * distance)))
                         nodeForces))"

definition applyCoulombsLaw :: "GraphLayout \<Rightarrow> forces \<Rightarrow> error + forces" where
  "applyCoulombsLaw l nodeForces =
     foldE (\<lambda>nodeForces n1. foldE (coulombPair n1) nodeForces (values_of (layout_nodes l)))
       nodeForces (values_of (layout_nodes l))"

text \<open>The loop body of \<^verbatim>\<open>applyHooksLaw\<close>.\<close>

definition hookeEdge :: "forces \<Rightarrow> LayoutEdge \<Rightarrow> error + forces" where
  "hookeEdge nodeForces e =
     (let d = subtract (position (target_node e)) (position (source_node e));
          displacement = SPRING_LENGTH - edge_length e
      in case normalise d of
           None \<Rightarrow> Inl Unspecified
         | Some direction \<Rightarrow>
             (case applyForce (source_node e)
                     (multiply direction (displacement * - 0.5)) nodeForces of
                Inl e \<Rightarrow> Inl e
              | Inr nodeForces \<Rightarrow>
                  applyForce (target_node e) (multiply direction (displacement * 0.5))
                    nodeForces))"

definition applyHooksLaw :: "GraphLayout \<Rightarrow> forces \<Rightarrow> error + forces" where
  "applyHooksLaw l nodeForces = foldE hookeEdge nodeForces (layout_edges l)"

text \<open>The loop body of \<^verbatim>\<open>applyGravity\<close>.\<close>

definition gravityNode :: "forces \<Rightarrow> LayoutNode \<Rightarrow> error + forces" where
  "gravityNode nodeForces n =
     (let direction = multiply (position n) (- 1.0)
      in applyForce n (multiply direction GRAVITY) nodeForces)"

definition applyGravity :: "GraphLayout \<Rightarrow> forces \<Rightarrow> error + forces" where
  "applyGravity l nodeForces = foldE gravityNode nodeForces (values_of (layout_nodes l))"

text \<open>\<^verbatim>\<open>moveNode\<close>. For a name inherited from \<^verbatim>\<open>Object.prototype\<close> that is no own key,
  \<^verbatim>\<open>this.nodeForces[designerId]\<close> is the inherited object, which is truthy and has neither
  \<^verbatim>\<open>x\<close> nor \<^verbatim>\<open>y\<close>: the node is translated by \<^verbatim>\<open>undefined\<close>.\<close>

definition moveNode :: "forces \<Rightarrow> LayoutNode \<Rightarrow> error + LayoutNode" where
  "moveNode nodeForces n =
     (case nodeForces (designerId (node n)) of
        Some force \<Rightarrow> Inr (translate n (vx force) (vy force))
      | None \<Rightarrow> if designerId (node n) \<in> set protoNames then Inl NotANumber else Inr n)"

text \<open>The forces a \<^verbatim>\<open>ForceAlgorithmStep\<close> has accumulated when \<^verbatim>\<open>springyStep\<close> moves the
  nodes: Hooke, then Coulomb, then gravity, from an empty accumulator.\<close>

definition stepForces :: "GraphLayout \<Rightarrow> error + forces" where
  "stepForces l =
     (case applyHooksLaw l Map.empty of
        Inl e \<Rightarrow> Inl e
      | Inr nodeForces \<Rightarrow>
          (case applyCoulombsLaw l nodeForces of
             Inl e \<Rightarrow> Inl e
           | Inr nodeForces \<Rightarrow> applyGravity l nodeForces))"

definition springyStep :: "GraphLayout \<Rightarrow> error + GraphLayout" where
  "springyStep l =
     (case stepForces l of
        Inl e \<Rightarrow> Inl e
      | Inr nodeForces \<Rightarrow> changePositions (moveNode nodeForces) l)"

text \<open>The loop of \<^verbatim>\<open>springyAlg\<close>, \<open>k\<close> rounds to go.\<close>

fun springyLoop :: "nat \<Rightarrow> GraphLayout \<Rightarrow> error + GraphLayout" where
  "springyLoop 0 res = Inr res"
| "springyLoop (Suc k) res =
     (case springyStep res of Inl e \<Rightarrow> Inl e | Inr res' \<Rightarrow> springyLoop k res')"

definition springyAlg :: "GraphLayout \<Rightarrow> error + GraphLayout" where
  "springyAlg l = springyLoop SPRINGY_STEPS l"

subsection \<open>View box\<close>

text \<open>\<^verbatim>\<open>_.min\<close> and \<^verbatim>\<open>_.max\<close> of an array of numbers: \<^verbatim>\<open>undefined\<close> for the empty array.\<close>

fun jsMin :: "real list \<Rightarrow> real option" where
  "jsMin [] = None"
| "jsMin (a # as) = Some (foldl min a as)"

fun jsMax :: "real list \<Rightarrow> real option" where
  "jsMax [] = None"
| "jsMax (a # as) = Some (foldl max a as)"

text \<open>With no nodes the offsets of \<^verbatim>\<open>fixViewBox\<close> are NaN, but the callback that would use
  them is never called.\<close>

definition fixViewBox :: "GraphLayout \<Rightarrow> error + GraphLayout" where
  "fixViewBox l =
     (case jsMin (map left (values_of (layout_nodes l))) of
        None \<Rightarrow> changePositions (\<lambda>n. Inl NotANumber) l
      | Some minX \<Rightarrow>
          (case jsMin (map top' (values_of (layout_nodes l))) of
             None \<Rightarrow> changePositions (\<lambda>n. Inl NotANumber) l
           | Some minY \<Rightarrow>
               changePositions (\<lambda>n. Inr (translate n (- minX + 50) (- minY + 50))) l))"

subsection \<open>Discrete refinement\<close>

text \<open>A score is a number or NaN; a comparison with NaN is false.\<close>

datatype number = Num real | NaN

fun num_sub :: "number \<Rightarrow> number \<Rightarrow> number" where
  "num_sub (Num a) (Num b) = Num (a - b)"
| "num_sub _ _ = NaN"

fun num_less :: "number \<Rightarrow> number \<Rightarrow> bool" where
  "num_less (Num a) (Num b) = (a < b)"
| "num_less _ _ = False"

text \<open>The body of the inner loop of \<^verbatim>\<open>score\<close>.\<close>

definition scorePair :: "LayoutNode \<Rightarrow> real \<Rightarrow> LayoutNode \<Rightarrow> real" where
  "scorePair n1 res n2 =
     (if designerId (node n1) = designerId (node n2) then res else res + intersectArea n1 n2)"

definition score :: "GraphLayout \<Rightarrow> number" where
  "score l =
     (let ns = values_of (layout_nodes l);
          res = foldl (\<lambda>res n1. foldl (scorePair n1) res ns) 0 ns
      in case (jsMin (map left ns), jsMin (map top' ns),
               jsMax (map right ns), jsMax (map bottom ns)) of
           (Some minX, Some minY, Some maxX, Some maxY) \<Rightarrow>
              Num (res + (maxX - minX) + (maxY - minY))
         | _ \<Rightarrow> NaN)"

text \<open>Within one layout the \<^verbatim>\<open>LayoutNode\<close> objects are pairwise distinct and stored under
  their own \<^verbatim>\<open>designerId\<close>, so \<^verbatim>\<open>x == node\<close> of \<^verbatim>\<open>tryMoveNode\<close> is equality of the values.\<close>

definition tryMoveNode :: "GraphLayout \<Rightarrow> LayoutNode \<Rightarrow> (error + GraphLayout) list" where
  "tryMoveNode l n =
     [changePositions (\<lambda>x. Inr (if x = n then translate n MOVE_STEP 0 else x)) l,
      changePositions (\<lambda>x. Inr (if x = n then translate n (- MOVE_STEP) 0 else x)) l,
      changePositions (\<lambda>x. Inr (if x = n then translate n 0 MOVE_STEP else x)) l,
      changePositions (\<lambda>x. Inr (if x = n then translate n 0 (- MOVE_STEP) else x)) l,
      changePositions (\<lambda>x. Inr (if x = n then translate n MOVE_BIG_STEP MOVE_BIG_STEP else x)) l,
      changePositions (\<lambda>x. Inr (if x = n then translate n MOVE_BIG_STEP (- MOVE_BIG_STEP) else x)) l,
      changePositions (\<lambda>x. Inr (if x = n then translate n (- MOVE_BIG_STEP) MOVE_BIG_STEP else x)) l,
      changePositions (\<lambda>x. Inr (if x = n then translate n (- MOVE_BIG_STEP) (- MOVE_BIG_STEP) else x)) l]"

text \<open>The state of \<^verbatim>\<open>tryMoveElement\<close>: \<^verbatim>\<open>res\<close> and \<^verbatim>\<open>resScore\<close>, both \<^verbatim>\<open>null\<close> (\<open>None\<close>) at
  first and assigned together. The body of its inner loop:\<close>

definition considerItem ::
    "(GraphLayout \<times> number) option \<Rightarrow> GraphLayout \<Rightarrow> (GraphLayout \<times> number) option" where
  "considerItem best item =
     (let sc = score item
      in case best of
           None \<Rightarrow> Some (item, sc)
         | Some (res, resScore) \<Rightarrow>
             if num_less sc resScore then Some (item, sc) else Some (res, resScore))"

text \<open>The outer loop of \<^verbatim>\<open>tryMoveElement\<close>: the eight candidates of a node are all built (any
  of the constructions may throw) before the first of them is scored.\<close>

fun tryMoveLoop ::
    "GraphLayout \<Rightarrow> LayoutNode list \<Rightarrow> (GraphLayout \<times> number) option
       \<Rightarrow> error + (GraphLayout \<times> number) option" where
  "tryMoveLoop l [] best = Inr best"
| "tryMoveLoop l (n # ns) best =
     (case mapE (\<lambda>c. c) (tryMoveNode l n) of
        Inl e \<Rightarrow> Inl e
      | Inr items \<Rightarrow> tryMoveLoop l ns (foldl considerItem best items))"

definition tryMoveElement :: "GraphLayout \<Rightarrow> error + GraphLayout option" where
  "tryMoveElement l =
     (case tryMoveLoop l (values_of (layout_nodes l)) None of
        Inl e \<Rightarrow> Inl e
      | Inr None \<Rightarrow> Inr None
      | Inr (Some (res, resScore)) \<Rightarrow> Inr (Some res))"

text \<open>The loop of \<^verbatim>\<open>doMoveSteps\<close>, \<open>k\<close> rounds to go. \<^verbatim>\<open>res.score()\<close> on the \<^verbatim>\<open>null\<close> that
  \<^verbatim>\<open>tryMoveElement\<close> returns for a layout without nodes throws.\<close>

fun moveLoop :: "nat \<Rightarrow> GraphLayout \<Rightarrow> number \<Rightarrow> error + GraphLayout" where
  "moveLoop 0 res sc = Inr res"
| "moveLoop (Suc k) res sc =
     (let lastRes = res
      in case tryMoveElement res of
           Inl e \<Rightarrow> Inl e
         | Inr None \<Rightarrow> Inl TypeError
         | Inr (Some res) \<Rightarrow>
             (let newScore = score res
              in if num_less (num_sub sc newScore) (Num MINIMAL_SCORE_BENEFIT) then Inr lastRes
                 else moveLoop k res newScore))"

definition doMoveSteps :: "GraphLayout \<Rightarrow> error + GraphLayout" where
  "doMoveSteps l = moveLoop MOVE_STEP_COUNT l (score l)"

subsection \<open>Circular initial layout\<close>

text \<open>\<^verbatim>\<open><\<close> on JavaScript strings: lexicographic by code unit.\<close>

fun str_less :: "string \<Rightarrow> string \<Rightarrow> bool" where
  "str_less [] [] = False"
| "str_less [] (b # bs) = True"
| "str_less (a # as) [] = False"
| "str_less (a # as) (b # bs) =
     ((of_char a :: nat) < of_char b \<or> (a = b \<and> str_less as bs))"

text \<open>The order of \<^verbatim>\<open>_.sortBy(nodes, [x => x.neightboors.length, x => x.height,
  x => x.designerId])\<close>: \<open>nodeBefore a b\<close> when \<open>a\<close> compares strictly below \<open>b\<close>.\<close>

definition nodeBefore :: "GraphNode \<Rightarrow> GraphNode \<Rightarrow> bool" where
  "nodeBefore a b \<longleftrightarrow>
     length (neightboors a) < length (neightboors b) \<or>
     (length (neightboors a) = length (neightboors b) \<and>
        (height a < height b \<or>
         (height a = height b \<and> str_less (designerId a) (designerId b))))"

text \<open>\<^verbatim>\<open>_.sortBy\<close> is a stable sort, here by insertion: an element goes in front of the
  first one that is not strictly below it.\<close>

fun insertBy :: "GraphNode list \<Rightarrow> ref \<Rightarrow> ref list \<Rightarrow> ref list" where
  "insertBy objs r [] = [r]"
| "insertBy objs r (q # qs) =
     (if nodeBefore (objs ! q) (objs ! r) then q # insertBy objs r qs else r # q # qs)"

definition sortBy :: "GraphNode list \<Rightarrow> ref list \<Rightarrow> ref list" where
  "sortBy objs rs = foldr (insertBy objs) rs []"

text \<open>The node objects of an array passed to \<^verbatim>\<open>_.sortBy\<close>. On an inherited object the
  first iteratee reads \<^verbatim>\<open>length\<close> of \<^verbatim>\<open>undefined\<close> and throws: \<open>None\<close>.\<close>

fun refsOf :: "objref list \<Rightarrow> ref list option" where
  "refsOf [] = Some []"
| "refsOf (Obj r # xs) = map_option (Cons r) (refsOf xs)"
| "refsOf (Proto n # xs) = None"

text \<open>
  \<^verbatim>\<open>addNodeNeighboors(nodes, res, addedNodes)\<close>. The source loops over the sorted nodes and
  calls itself on the neighbours of each node it adds; when that call returns, the loop
  goes on with the next sorted node. The model keeps the nodes still to be visited in one
  list: the sorted neighbours go in front of the rest of the loop. The caller passes the
  sorted list. A reference always denotes an object in JavaScript; the model, where a
  reference is an index, skips one that does not.
\<close>

function addNodeNeighboors ::
    "GraphNode list \<Rightarrow> ref list \<Rightarrow> ref list \<Rightarrow> string set \<Rightarrow> error + ref list" where
  "addNodeNeighboors objs [] res addedNodes = Inr res"
| "addNodeNeighboors objs (r # todo) res addedNodes =
     (if r < length objs \<and> designerId (objs ! r) \<notin> addedNodes
      then (case refsOf (neightboors (objs ! r)) of
              None \<Rightarrow> Inl TypeError
            | Some ns \<Rightarrow>
                addNodeNeighboors objs (sortBy objs ns @ todo)
                  (res @ [r]) (insert (designerId (objs ! r)) addedNodes))
      else addNodeNeighboors objs todo res addedNodes)"
  by pat_completeness auto
termination
proof (relation "measures [\<lambda>(objs, todo, res, addedNodes). card (designerId ` set objs - addedNodes),
                           \<lambda>(objs, todo, res, addedNodes). length todo]")
  show "wf (measures [\<lambda>(objs, todo, res, addedNodes). card (designerId ` set objs - addedNodes),
                      \<lambda>(objs, todo, res, addedNodes). length todo])"
    by simp
next
  fix objs :: "GraphNode list" and r :: ref and todo res ns :: "ref list"
    and addedNodes :: "string set"
  assume a: "r < length objs \<and> designerId (objs ! r) \<notin> addedNodes"
  let ?i = "designerId (objs ! r)"
  have m: "?i \<in> designerId ` set objs - addedNodes" using a by simp
  have f: "finite (designerId ` set objs - addedNodes)" by simp
  have "designerId ` set objs - insert ?i addedNodes = (designerId ` set objs - addedNodes) - {?i}"
    by blast
  then have "card (designerId ` set objs - insert ?i addedNodes) < card (designerId ` set objs - addedNodes)"
    using card_Diff1_less[OF f m] by (simp only:)
  then show "((objs, sortBy objs ns @ todo, res @ [r], insert ?i addedNodes),
              (objs, r # todo, res, addedNodes))
             \<in> measures [\<lambda>(objs, todo, res, addedNodes). card (designerId ` set objs - addedNodes),
                          \<lambda>(objs, todo, res, addedNodes). length todo]"
    by simp
next
  fix objs :: "GraphNode list" and r :: ref and todo res :: "ref list" and addedNodes :: "string set"
  show "((objs, todo, res, addedNodes), (objs, r # todo, res, addedNodes))
             \<in> measures [\<lambda>(objs, todo, res, addedNodes). card (designerId ` set objs - addedNodes),
                          \<lambda>(objs, todo, res, addedNodes). length todo]"
    by simp
qed

text \<open>\<^verbatim>\<open>_.max\<close> of an array whose entries may be \<^verbatim>\<open>undefined\<close>: those are passed over.\<close>

definition jsMaxDefined :: "real option list \<Rightarrow> real option" where
  "jsMaxDefined as = jsMax (concat (map (\<lambda>a. case a of None \<Rightarrow> [] | Some v \<Rightarrow> [v]) as))"

text \<open>The placement loop of \<^verbatim>\<open>createCircle\<close>.\<close>

fun placeNodes ::
    "GraphNode list \<Rightarrow> real \<Rightarrow> real \<Rightarrow> real \<Rightarrow> ref list
       \<Rightarrow> (string \<times> LayoutNode) list \<Rightarrow> (string \<times> LayoutNode) list" where
  "placeNodes objs r dangle angle [] d = d"
| "placeNodes objs r dangle angle (n # ns) d =
     placeNodes objs r dangle (angle + dangle) ns
       (dict_set (designerId (objs ! n))
          (newLayoutNode (objs ! n) (sin angle * r) (cos angle * r)) d)"

definition circleSortedNodes :: "GraphDefinition \<Rightarrow> error + ref list" where
  "circleSortedNodes g =
     addNodeNeighboors (objects g) (sortBy (objects g) (values_of (nodes g))) [] {}"

text \<open>With no radius defined among the ordered nodes (a graph that was not initialized),
  \<^verbatim>\<open>_.max\<close> is \<^verbatim>\<open>undefined\<close> and every coordinate NaN.\<close>

definition createCircle :: "GraphDefinition \<Rightarrow> error + GraphLayout" where
  "createCircle g =
     (if nodes g = [] then Inr (newGraphLayout g)
      else
        case circleSortedNodes g of
          Inl e \<Rightarrow> Inl e
        | Inr ordered \<Rightarrow>
            (case jsMaxDefined (map (\<lambda>x. radius (objects g ! x)) ordered) of
               None \<Rightarrow> Inl NotANumber
             | Some nodeRadius \<Rightarrow>
                 (let nodeCount = real (length ordered);
                      r = (nodeCount * nodeRadius) / (2 * pi) + nodeRadius;
                      dangle = (2 * pi) / real (length ordered)
                  in fillEdges ((newGraphLayout g)
                       \<lparr>layout_nodes := placeNodes (objects g) r dangle 0 ordered []\<rparr>))))"

subsection \<open>Invariants and example inputs\<close>

text \<open>An edge end or neighbour entry denotes an object: a reference is below the size \<open>k\<close>
  of the store.\<close>

fun valid :: "nat \<Rightarrow> objref \<Rightarrow> bool" where
  "valid k (Obj m) = (m < k)"
| "valid k (Proto n) = True"

text \<open>What every graph made by \<open>build\<close> and \<open>initialize\<close> satisfies: the dictionary has
  one entry per key, an entry refers to an object of the store that carries the key as its
  \<^verbatim>\<open>designerId\<close>, every object was once registered under its \<^verbatim>\<open>designerId\<close>, and the
  references in neighbour lists and edges denote objects.\<close>

definition wf_graph :: "GraphDefinition \<Rightarrow> bool" where
  "wf_graph g \<longleftrightarrow>
     distinct (map fst (nodes g)) \<and>
     (\<forall>p \<in> set (nodes g). snd p < length (objects g) \<and> designerId (objects g ! snd p) = fst p) \<and>
     (\<forall>n \<in> set (objects g). designerId n \<in> fst ` set (nodes g) \<and>
        (\<forall>m \<in> set (neightboors n). valid (length (objects g)) m)) \<and>
     (\<forall>e \<in> set (edges g). valid (length (objects g)) (source e) \<and>
                          valid (length (objects g)) (target e))"


definition edges_unique :: "GraphDefinition \<Rightarrow> bool" where
  "edges_unique g \<longleftrightarrow> (\<forall>s t. edgesBetween s t (edges g) \<le> 1)"

text \<open>A layout of the graph \<open>g\<close>: it places exactly the identifiers of \<open>g\<close>, and its edge
  list is the one \<open>fillEdges\<close> derives from the edges of \<open>g\<close> and the layout's own nodes.\<close>

definition layout_of :: "GraphDefinition \<Rightarrow> GraphLayout \<Rightarrow> bool" where
  "layout_of g l \<longleftrightarrow>
     graph l = g \<and>
     set (map fst (layout_nodes l)) = set (map fst (nodes g)) \<and>
     map edge (layout_edges l) = edges g \<and>
     fillEdges l = Inr l"

text \<open>Every layout node is stored under the \<^verbatim>\<open>designerId\<close> of its graph node, once.\<close>

definition keyed :: "GraphLayout \<Rightarrow> bool" where
  "keyed l \<longleftrightarrow>
     distinct (map fst (layout_nodes l)) \<and>
     (\<forall>p \<in> set (layout_nodes l). designerId (node (snd p)) = fst p)"

text \<open>Two boxes of 6 by 8, so of radius 5, without and with an edge between them.\<close>

definition g_two :: GraphDefinition where
  "g_two = build [AddNode ''a'' 6 8, AddNode ''b'' 6 8]"

definition g_pair :: GraphDefinition where
  "g_pair = initialize (build [AddNode ''a'' 6 8, AddNode ''b'' 6 8, AddEdge ''a'' ''b''])"









text \<open>A graph with the single node \<open>a\<close>, after \<^verbatim>\<open>addEdge('constructor', 'a')\<close>.\<close>

definition g_inherited :: GraphDefinition where
  "g_inherited = build [AddNode ''a'' 6 8, AddEdge ''constructor'' ''a'']"

text \<open>The identifier \<open>a\<close> is added again after the edge, then the edge is asked for again.\<close>

definition g_readded :: GraphDefinition where
  "g_readded = build [AddNode ''a'' 6 8, AddNode ''b'' 6 8, AddEdge ''a'' ''b'',
                      AddNode ''a'' 6 8, AddEdge ''a'' ''b'']"

text \<open>Every edge of the graph has both its end nodes in the layout, so that \<open>fillEdges\<close>
  does not throw.\<close>

definition placed :: "GraphLayout \<Rightarrow> bool" where
  "placed l \<longleftrightarrow>
     (\<forall>e \<in> set (edges (graph l)).
        endId (objects (graph l)) (source e) \<in> fst ` set (layout_nodes l) \<and>
        endId (objects (graph l)) (target e) \<in> fst ` set (layout_nodes l))"

text \<open>The \<^verbatim>\<open>designerId\<close> of the node object a reference denotes.\<close>

abbreviation idOf :: "GraphNode list \<Rightarrow> ref \<Rightarrow> string" where
  "idOf objs r \<equiv> designerId (objs ! r)"

text \<open>The store has \<open>k\<close> objects and every neighbour reference denotes one of them.\<close>

definition refs_ok :: "nat \<Rightarrow> GraphNode list \<Rightarrow> bool" where
  "refs_ok k objs \<longleftrightarrow> length objs = k \<and> (\<forall>j < k. \<forall>m \<in> set (neightboors (objs ! j)). valid k m)"

text \<open>Every registered node has its radius: \<^verbatim>\<open>initialize()\<close> has run.\<close>

definition initialized :: "GraphDefinition \<Rightarrow> bool" where
  "initialized g \<longleftrightarrow> (\<forall>p \<in> set (nodes g). radius (objects g ! snd p) \<noteq> None)"

text \<open>Every radius that is defined is the square root \<^verbatim>\<open>initialize\<close> computed.\<close>

definition radii_nonneg :: "GraphDefinition \<Rightarrow> bool" where
  "radii_nonneg g \<longleftrightarrow> (\<forall>j < length (objects g). \<forall>v. radius (objects g ! j) = Some v \<longrightarrow> 0 \<le> v)"

text \<open>What \<open>initialize (build cs)\<close> satisfies, for every list of calls \<open>cs\<close>.\<close>

definition ready :: "GraphDefinition \<Rightarrow> bool" where
  "ready g \<longleftrightarrow> wf_graph g \<and> initialized g \<and> radii_nonneg g"

text \<open>The dictionary \<^verbatim>\<open>createCircle\<close> fills from the ordered nodes \<open>ns\<close>, for a circle of
  radius \<open>r\<close>: the \<open>k\<close>-th ordered node at the angle \<open>k * (2 * pi / n)\<close>, \<open>n\<close> the number of
  ordered nodes.\<close>

definition circleNodes :: "GraphNode list \<Rightarrow> ref list \<Rightarrow> real \<Rightarrow> (string \<times> LayoutNode) list" where
  "circleNodes objs ns r =
     map (\<lambda>k. (idOf objs (ns ! k),
               newLayoutNode (objs ! (ns ! k))
                 (sin (real k * (2 * pi / real (length ns))) * r)
                 (cos (real k * (2 * pi / real (length ns))) * r)))
       [0..<length ns]"

definition node_a :: GraphNode where
  "node_a = \<lparr>designerId = ''a'', width = 6, height = 8, neightboors = [Obj 1], radius = Some 5\<rparr>"

definition node_b :: GraphNode where
  "node_b = \<lparr>designerId = ''b'', width = 6, height = 8, neightboors = [Obj 0], radius = Some 5\<rparr>"

definition l_pair :: GraphLayout where
  "l_pair =
     \<lparr>graph = g_pair,
      layout_nodes = [(''a'', newLayoutNode node_a 0 (5 / pi + 5)),
                      (''b'', newLayoutNode node_b 0 (- (5 / pi) - 5))],
      layout_edges = [\<lparr>edge = \<lparr>source = Obj 0, target = Obj 1\<rparr>, edge_length = 10 / pi + 2,
                        source_node = newLayoutNode node_a 0 (5 / pi + 5),
                        target_node = newLayoutNode node_b 0 (- (5 / pi) - 5)\<rparr>]\<rparr>"

text \<open>The length the specification describes for a layout edge: the Euclidean distance
  between the center positions of its two end nodes.\<close>

definition centerDistance :: "LayoutEdge \<Rightarrow> real" where
  "centerDistance e = magnitude (subtract (position (source_node e)) (position (target_node e)))"

text \<open>A run of accepted refinement steps from the layout \<open>l\<close>: each layout is the one
  \<open>tryMoveElement\<close> picks from its predecessor, and its score is lower by at least 1.\<close>

fun accepted :: "GraphLayout \<Rightarrow> GraphLayout list \<Rightarrow> bool" where
  "accepted l [] = True"
| "accepted l (m # ms) =
     (tryMoveElement l = Inr (Some m) \<and>
      (\<exists>a b. score l = Num a \<and> score m = Num b \<and> b + MINIMAL_SCORE_BENEFIT \<le> a) \<and>
      accepted m ms)"

text \<open>The step from \<open>l\<close> gains less than 1.\<close>

definition insufficient :: "GraphLayout \<Rightarrow> bool" where
  "insufficient l \<longleftrightarrow>
     (\<exists>c a b. tryMoveElement l = Inr (Some c) \<and> score l = Num a \<and> score c = Num b \<and>
        a - b < MINIMAL_SCORE_BENEFIT)"

definition emptyLayout :: GraphLayout where
  "emptyLayout = newGraphLayout emptyGraph"



text \<open>The accumulated force of a node, the zero vector while none was applied.\<close>

definition accumulated :: "forces \<Rightarrow> string \<Rightarrow> Vector2D" where
  "accumulated nodeForces i = (case nodeForces i of None \<Rightarrow> \<lparr>vx = 0, vy = 0\<rparr> | Some f \<Rightarrow> f)"




section \<open>Properties\<close>

subsection \<open>Dictionaries, edges and the graph invariants\<close>

lemma dict_set_map_of: "map_of (dict_set k v d) = (map_of d)(k \<mapsto> v)"
  by (induction d) (auto simp: fun_eq_iff)

lemma dict_set_keys: "set (map fst (dict_set k v d)) = insert k (set (map fst d))"
  by (induction d) auto

lemma edgeJoins_sym: "edgeJoins t s = edgeJoins s t"
  by (auto simp: edgeJoins_def fun_eq_iff)

lemma find_None_filter: "(find P xs = None) = (filter P xs = [])"
  by (induction xs) auto

lemma nodeAt_own: "map_of (nodes g) a = Some r \<Longrightarrow> nodeAt g a = Some (Obj r)"
  by (simp add: nodeAt_def dict_get_def)

lemma nodeAt_None:
  "nodeAt g k = None \<longleftrightarrow> map_of (nodes g) k = None \<and> k \<notin> set protoNames"
  by (simp add: nodeAt_def dict_get_def split: option.splits)

lemma nodeAt_cases:
  "nodeAt g k = Some s \<Longrightarrow>
     (\<exists>r. s = Obj r \<and> map_of (nodes g) k = Some r) \<or>
     (s = Proto k \<and> map_of (nodes g) k = None \<and> k \<in> set protoNames)"
  by (auto simp: nodeAt_def dict_get_def split: option.splits if_splits)

lemma addEdge_unknown:
  "nodeAt g a = None \<or> nodeAt g b = None \<Longrightarrow> addEdge a b g = g"
  by (auto simp: addEdge_def split: option.splits)

lemma addEdge_nodes: "nodes (addEdge a b g) = nodes g"
  by (auto simp: addEdge_def split: option.splits)

lemma nodeAt_addEdge: "nodeAt (addEdge a b g) k = nodeAt g k"
  by (simp add: nodeAt_def addEdge_nodes)

lemma addEdge_between_pos:
  assumes "nodeAt g a = Some s" "nodeAt g b = Some t"
  shows "find (edgeJoins s t) (edges (addEdge a b g)) \<noteq> None"
proof (cases "find (edgeJoins s t) (edges g)")
  case None
  with assms have "edges (addEdge a b g) = edges g @ [\<lparr>source = s, target = t\<rparr>]"
    by (simp add: addEdge_def)
  then show ?thesis by (simp add: find_None_filter edgeJoins_def)
next
  case (Some x)
  with assms show ?thesis by (simp add: addEdge_def)
qed

lemma addEdge_idem:
  "addEdge a b (addEdge a b g) = addEdge a b g"
proof (cases "nodeAt g a")
  case None then show ?thesis by (simp add: addEdge_unknown)
next
  case (Some s)
  show ?thesis
  proof (cases "nodeAt g b")
    case None then show ?thesis by (simp add: addEdge_unknown)
  next
    case (Some t)
    from addEdge_between_pos[OF \<open>nodeAt g a = Some s\<close> Some]
    obtain x where "find (edgeJoins s t) (edges (addEdge a b g)) = Some x" by auto
    then show ?thesis
      using \<open>nodeAt g a = Some s\<close> Some
      by (subst addEdge_def) (simp add: nodeAt_addEdge)
  qed
qed

lemma addEdge_rev:
  "addEdge b a (addEdge a b g) = addEdge a b g"
proof (cases "nodeAt g a")
  case None then show ?thesis by (simp add: addEdge_unknown nodeAt_addEdge)
next
  case (Some s)
  show ?thesis
  proof (cases "nodeAt g b")
    case None then show ?thesis by (simp add: addEdge_unknown nodeAt_addEdge)
  next
    case (Some t)
    from addEdge_between_pos[OF \<open>nodeAt g a = Some s\<close> Some]
    obtain x where "find (edgeJoins t s) (edges (addEdge a b g)) = Some x"
      by (auto simp: edgeJoins_sym[of t s])
    then show ?thesis
      using \<open>nodeAt g a = Some s\<close> Some
      by (subst addEdge_def) (simp add: nodeAt_addEdge)
  qed
qed

lemma edgeJoins_same:
  "edgeJoins s t \<lparr>source = s', target = t'\<rparr> \<Longrightarrow> edgeJoins s t = edgeJoins s' t'"
  by (auto simp: edgeJoins_def fun_eq_iff)

lemma addEdge_unique: "edges_unique g \<Longrightarrow> edges_unique (addEdge a b g)"
  unfolding edges_unique_def edgesBetween_def
  apply (auto simp: addEdge_def find_None_filter split: option.splits)
  apply (drule edgeJoins_same)
  apply simp
  done

lemma addNode_edges: "edges (addNode i w h g) = edges g"
  by (simp add: addNode_def)

lemma build_unique: "edges_unique (build cs)"
proof (induction cs rule: rev_induct)
  case Nil show ?case by (simp add: build_def emptyGraph_def edges_unique_def edgesBetween_def)
next
  case (snoc c cs)
  show ?case
  proof (cases c)
    case (AddNode i w h)
    with snoc show ?thesis by (simp add: build_def edges_unique_def addNode_edges)
  next
    case (AddEdge a b)
    with snoc addEdge_unique[of "build cs" a b] show ?thesis by (simp add: build_def)
  qed
qed

lemma between_ge1:
  assumes "nodeAt g a = Some s" "nodeAt g b = Some t"
  shows "1 \<le> edgesBetween s t (edges (addEdge a b g))"
proof -
  from addEdge_between_pos[OF assms] have "filter (edgeJoins s t) (edges (addEdge a b g)) \<noteq> []"
    by (simp add: find_None_filter)
  then show ?thesis unfolding edgesBetween_def by (cases "filter (edgeJoins s t) (edges (addEdge a b g))") auto
qed

lemma dict_set_distinct: "distinct (map fst d) \<Longrightarrow> distinct (map fst (dict_set k v d))"
  by (induction d) (auto simp: dict_set_keys[simplified])

lemma dict_set_set: "p \<in> set (dict_set k v d) \<Longrightarrow> p = (k, v) \<or> p \<in> set d"
  by (induction d) (auto split: if_splits)

lemma valid_mono: "valid k m \<Longrightarrow> k \<le> k' \<Longrightarrow> valid k' m"
  by (cases m) auto

lemma valid_Suc: "valid k m \<Longrightarrow> valid (Suc k) m"
  by (cases m) auto

lemma wf_emptyGraph: "wf_graph emptyGraph"
  by (simp add: wf_graph_def emptyGraph_def)

lemma wf_addNode:
  assumes "wf_graph g" shows "wf_graph (addNode i w h g)"
proof -
  let ?g = "addNode i w h g"
  have o: "objects ?g = objects g @ [newGraphNode i w h]"
    and n: "nodes ?g = dict_set i (length (objects g)) (nodes g)"
    and e: "edges ?g = edges g" by (simp_all add: addNode_def)
  have 1: "distinct (map fst (nodes ?g))" using assms by (simp add: n dict_set_distinct wf_graph_def)
  have 2: "\<forall>p \<in> set (nodes ?g). snd p < length (objects ?g) \<and> designerId (objects ?g ! snd p) = fst p"
  proof
    fix p assume "p \<in> set (nodes ?g)"
    then consider "p = (i, length (objects g))" | "p \<in> set (nodes g)"
      using dict_set_set[of p i "length (objects g)" "nodes g"] by (auto simp: n)
    then show "snd p < length (objects ?g) \<and> designerId (objects ?g ! snd p) = fst p"
    proof cases
      case 1 then show ?thesis by (simp add: o newGraphNode_def)
    next
      case 2
      with assms have "snd p < length (objects g)" "designerId (objects g ! snd p) = fst p"
        by (auto simp: wf_graph_def)
      then show ?thesis by (simp add: o nth_append)
    qed
  qed
  have k: "fst ` set (nodes ?g) = insert i (fst ` set (nodes g))"
    using dict_set_keys[of i "length (objects g)" "nodes g"] by (simp add: n)
  have 3: "\<forall>n \<in> set (objects ?g). designerId n \<in> fst ` set (nodes ?g) \<and>
        (\<forall>m \<in> set (neightboors n). valid (length (objects ?g)) m)"
    using assms unfolding k o
    by (auto simp: wf_graph_def newGraphNode_def intro!: valid_Suc)
  have 4: "\<forall>e \<in> set (edges ?g). valid (length (objects ?g)) (source e) \<and>
                                valid (length (objects ?g)) (target e)"
    using assms unfolding o e by (auto simp: wf_graph_def intro!: valid_Suc)
  show ?thesis unfolding wf_graph_def using 1 2 3 4 by blast
qed

lemma nodeAt_valid:
  assumes "wf_graph g" "nodeAt g a = Some s" shows "valid (length (objects g)) s"
proof -
  from nodeAt_cases[OF assms(2)] show ?thesis
  proof
    assume "\<exists>r. s = Obj r \<and> map_of (nodes g) a = Some r"
    then obtain r where r: "s = Obj r" "map_of (nodes g) a = Some r" by blast
    then have "(a, r) \<in> set (nodes g)" by (auto dest: map_of_SomeD)
    with assms(1) have "r < length (objects g)" by (auto simp: wf_graph_def)
    with r show ?thesis by simp
  next
    assume "s = Proto a \<and> map_of (nodes g) a = None \<and> a \<in> set protoNames"
    then show ?thesis by simp
  qed
qed

lemma wf_addEdge:
  assumes "wf_graph g" shows "wf_graph (addEdge a b g)"
proof (cases "\<exists>s t. nodeAt g a = Some s \<and> nodeAt g b = Some t \<and> find (edgeJoins s t) (edges g) = None")
  case False
  then have "addEdge a b g = g" by (auto simp: addEdge_def split: option.splits)
  with assms show ?thesis by simp
next
  case True
  then obtain s t where st: "nodeAt g a = Some s" "nodeAt g b = Some t"
    "find (edgeJoins s t) (edges g) = None" by blast
  then have eq: "addEdge a b g = g\<lparr>edges := edges g @ [\<lparr>source = s, target = t\<rparr>]\<rparr>"
    by (simp add: addEdge_def)
  from st assms have "valid (length (objects g)) s" "valid (length (objects g)) t"
    by (auto intro: nodeAt_valid)
  with assms show ?thesis unfolding eq wf_graph_def by auto
qed

lemma wf_build: "wf_graph (build cs)"
proof (induction cs rule: rev_induct)
  case Nil show ?case by (simp add: build_def wf_emptyGraph)
next
  case (snoc c cs)
  show ?case
  proof (cases c)
    case (AddNode i w h)
    with snoc wf_addNode[of "build cs" i w h] show ?thesis by (simp add: build_def)
  next
    case (AddEdge a b)
    with snoc wf_addEdge[of "build cs" a b] show ?thesis by (simp add: build_def)
  qed
qed

lemma initialize_alt: "initialize g = g\<lparr>objects := foldl (initStep (edges g)) (objects g) (map snd (nodes g))\<rparr>"
  by (simp add: initialize_def)

lemma initNode_fields:
  "designerId (initNode es r n) = designerId n" "width (initNode es r n) = width n"
  "height (initNode es r n) = height n"
  "radius (initNode es r n) = Some (sqrt ((width n * width n) / 4 + (height n * height n) / 4))"
  by (simp_all add: initNode_def node_initialize_def)

lemma initStep_length: "length (initStep es objs r) = length objs"
  by (simp add: initStep_def)

lemma initStep_fields:
  "designerId (initStep es objs r ! j) = designerId (objs ! j)"
  "width (initStep es objs r ! j) = width (objs ! j)"
  "height (initStep es objs r ! j) = height (objs ! j)"
  by (cases "j = r"; cases "r < length objs"; simp add: initStep_def initNode_fields list_update_beyond)+

lemma initStep_radius_keep:
  "radius (objs ! j) = Some (sqrt ((width (objs ! j) * width (objs ! j)) / 4 + (height (objs ! j) * height (objs ! j)) / 4))
   \<Longrightarrow> radius (initStep es objs r ! j) = Some (sqrt ((width (objs ! j) * width (objs ! j)) / 4 + (height (objs ! j) * height (objs ! j)) / 4))"
  by (cases "j = r"; cases "r < length objs"; simp add: initStep_def initNode_fields list_update_beyond)

lemma foldl_initStep_length: "length (foldl (initStep es) objs rs) = length objs"
  by (induction rs arbitrary: objs) (simp_all add: initStep_length)

lemma foldl_initStep_fields:
  "designerId (foldl (initStep es) objs rs ! j) = designerId (objs ! j)"
  "width (foldl (initStep es) objs rs ! j) = width (objs ! j)"
  "height (foldl (initStep es) objs rs ! j) = height (objs ! j)"
  by (induction rs arbitrary: objs; simp add: initStep_fields)+

lemma foldl_initStep_radius_keep:
  "radius (objs ! j) = Some (sqrt ((width (objs ! j) * width (objs ! j)) / 4 + (height (objs ! j) * height (objs ! j)) / 4))
   \<Longrightarrow> radius (foldl (initStep es) objs rs ! j) = Some (sqrt ((width (objs ! j) * width (objs ! j)) / 4 + (height (objs ! j) * height (objs ! j)) / 4))"
proof (induction rs arbitrary: objs)
  case Nil then show ?case by simp
next
  case (Cons r rs)
  have "radius (initStep es objs r ! j) = Some (sqrt ((width (initStep es objs r ! j) * width (initStep es objs r ! j)) / 4
             + (height (initStep es objs r ! j) * height (initStep es objs r ! j)) / 4))"
    using initStep_radius_keep[OF Cons.prems] by (simp add: initStep_fields)
  from Cons.IH[OF this] show ?case by (simp add: initStep_fields)
qed

lemma foldl_initStep_radius:
  assumes "r \<in> set rs" "r < length objs"
  shows "radius (foldl (initStep es) objs rs ! r)
         = Some (sqrt ((width (objs ! r) * width (objs ! r)) / 4 + (height (objs ! r) * height (objs ! r)) / 4))"
  using assms
proof (induction rs arbitrary: objs)
  case Nil then show ?case by simp
next
  case (Cons a rs)
  show ?case
  proof (cases "a = r")
    case True
    have "radius (initStep es objs r ! r) = Some (sqrt ((width (initStep es objs r ! r) * width (initStep es objs r ! r)) / 4
             + (height (initStep es objs r ! r) * height (initStep es objs r ! r)) / 4))"
      using Cons.prems by (simp add: initStep_def initNode_fields)
    from foldl_initStep_radius_keep[OF this] True show ?thesis by (simp add: initStep_fields)
  next
    case False
    with Cons.prems have "r \<in> set rs" "r < length (initStep es objs a)" by (simp_all add: initStep_length)
    from Cons.IH[OF this] show ?thesis by (simp add: initStep_fields)
  qed
qed

lemma sqrt_half_diagonal: "sqrt ((w * w) / 4 + (h * h) / 4) = sqrt (w\<^sup>2 + h\<^sup>2) / 2"
proof -
  have "(w * w) / 4 + (h * h) / 4 = (w\<^sup>2 + h\<^sup>2) / 4"
    by (simp add: power2_eq_square add_divide_distrib)
  then have "sqrt ((w * w) / 4 + (h * h) / 4) = sqrt (w\<^sup>2 + h\<^sup>2) / sqrt 4"
    by (simp only: real_sqrt_divide)
  then show ?thesis by (simp only: real_sqrt_four)
qed

lemma g_two_eval:
  "g_two = \<lparr>objects = [newGraphNode ''a'' 6 8, newGraphNode ''b'' 6 8],
            nodes = [(''a'', 0), (''b'', 1)], edges = []\<rparr>"
  by (simp add: g_two_def build_def emptyGraph_def addNode_def)

subsection \<open>Claims about the graph model\<close>

text \<open>
  C9. After \<^verbatim>\<open>initialize()\<close>, every node of the graph (the object registered under an
  identifier \<open>i\<close>) has the radius \<open>sqrt (w\<^sup>2 + h\<^sup>2) / 2\<close>, which is \<open>sqrt (w\<^sup>2 / 4 + h\<^sup>2 / 4)\<close>, where
  \<open>w\<close> and \<open>h\<close> are its width and height; \<^verbatim>\<open>initialize\<close> changes neither of them, nor the
  identifier, nor the dictionary. The graph is any graph made by calls of \<^verbatim>\<open>addNode\<close> and
  \<^verbatim>\<open>addEdge\<close>.
\<close>

theorem C9_radius:
  assumes "g = build cs" and "map_of (nodes g) i = Some r"
  shows "radius (objects (initialize g) ! r)
           = Some (sqrt ((width (objects g ! r))\<^sup>2 + (height (objects g ! r))\<^sup>2) / 2)
       \<and> sqrt ((width (objects g ! r))\<^sup>2 + (height (objects g ! r))\<^sup>2) / 2
           = sqrt ((width (objects g ! r))\<^sup>2 / 4 + (height (objects g ! r))\<^sup>2 / 4)
       \<and> designerId (objects (initialize g) ! r) = i
       \<and> width (objects (initialize g) ! r) = width (objects g ! r)
       \<and> height (objects (initialize g) ! r) = height (objects g ! r)
       \<and> map_of (nodes (initialize g)) i = Some r"
proof -
  have wf: "wf_graph g" using assms(1) wf_build by simp
  from assms(2) have m: "(i, r) \<in> set (nodes g)" by (rule map_of_SomeD)
  with wf have r: "r < length (objects g)" and d: "designerId (objects g ! r) = i"
    by (auto simp: wf_graph_def)
  from m have rs: "r \<in> set (map snd (nodes g))" by force
  have o: "objects (initialize g) = foldl (initStep (edges g)) (objects g) (map snd (nodes g))"
    and n: "nodes (initialize g) = nodes g" by (simp_all add: initialize_alt)
  have 1: "radius (objects (initialize g) ! r)
           = Some (sqrt ((width (objects g ! r))\<^sup>2 + (height (objects g ! r))\<^sup>2) / 2)"
    unfolding o using foldl_initStep_radius[OF rs r, of "edges g"]
    by (simp only: sqrt_half_diagonal)
  have 2: "sqrt ((width (objects g ! r))\<^sup>2 + (height (objects g ! r))\<^sup>2) / 2
           = sqrt ((width (objects g ! r))\<^sup>2 / 4 + (height (objects g ! r))\<^sup>2 / 4)"
    using sqrt_half_diagonal[of "width (objects g ! r)" "height (objects g ! r)"]
    by (simp only: power2_eq_square)
  show ?thesis using 1 2 d assms(2) by (simp only: o n foldl_initStep_fields simp_thms)
qed

text \<open>The box of 6 by 8 registered as \<open>a\<close> gets the radius 5.\<close>

theorem C9_radius_witness:
  "g_two = build [AddNode ''a'' 6 8, AddNode ''b'' 6 8]
   \<and> map_of (nodes g_two) ''a'' = Some 0
   \<and> width (objects g_two ! 0) = 6 \<and> height (objects g_two ! 0) = 8
   \<and> radius (objects (initialize g_two) ! 0) = Some 5"
  using C9_radius[of g_two "[AddNode ''a'' 6 8, AddNode ''b'' 6 8]" "''a''" 0]
  using real_sqrt_abs[of 10]
  by (simp add: g_two_def[symmetric]) (simp add: g_two_eval newGraphNode_def)

text \<open>
  C10. In a graph that has a node \<open>a\<close> and no edge from that node to itself,
  \<^verbatim>\<open>addEdge(a, a)\<close> appends a self-edge, whose source and target are both that node; a second
  \<^verbatim>\<open>addEdge(a, a)\<close> changes nothing.
\<close>

theorem C10_self_edge:
  assumes "map_of (nodes g) a = Some r"
    and "\<not> (\<exists>x \<in> set (edges g). source x = Obj r \<and> target x = Obj r)"
  shows "edges (addEdge a a g) = edges g @ [\<lparr>source = Obj r, target = Obj r\<rparr>]
       \<and> addEdge a a (addEdge a a g) = addEdge a a g"
proof -
  from assms(2) have "filter (edgeJoins (Obj r) (Obj r)) (edges g) = []"
    by (auto simp: edgeJoins_def filter_empty_conv)
  then have "find (edgeJoins (Obj r) (Obj r)) (edges g) = None" by (simp add: find_None_filter)
  with nodeAt_own[OF assms(1)]
  have "edges (addEdge a a g) = edges g @ [\<lparr>source = Obj r, target = Obj r\<rparr>]"
    by (simp add: addEdge_def)
  then show ?thesis by (simp only: addEdge_idem simp_thms)
qed

theorem C10_self_edge_witness:
  "map_of (nodes g_two) ''a'' = Some 0
   \<and> edges g_two = []
   \<and> edges (addEdge ''a'' ''a'' g_two) = [\<lparr>source = Obj 0, target = Obj 0\<rparr>]
   \<and> addEdge ''a'' ''a'' (addEdge ''a'' ''a'' g_two) = addEdge ''a'' ''a'' g_two"
  using C10_self_edge[of g_two "''a''" 0] by (simp add: g_two_eval)

text \<open>What \<^verbatim>\<open>addEdge\<close> does keep: with both names found, by own key or inherited, a second
  call in either direction changes nothing, and one edge joins the two objects found.\<close>

lemma addEdge_once:
  assumes "g = build cs" and "nodeAt g a = Some s" and "nodeAt g b = Some t"
  shows "edgesBetween s t (edges (addEdge a b (addEdge a b g))) = 1
       \<and> edgesBetween s t (edges (addEdge b a (addEdge a b g))) = 1
       \<and> addEdge a b (addEdge a b g) = addEdge a b g
       \<and> addEdge b a (addEdge a b g) = addEdge a b g"
proof -
  have "edges_unique g" using assms(1) build_unique by simp
  then have "edges_unique (addEdge a b g)" by (rule addEdge_unique)
  then have "edgesBetween s t (edges (addEdge a b g)) \<le> 1" by (simp add: edges_unique_def)
  with between_ge1[OF assms(2,3)] have "edgesBetween s t (edges (addEdge a b g)) = 1" by simp
  then show ?thesis by (simp add: addEdge_idem addEdge_rev)
qed

lemma g_inherited_eval:
  "g_inherited = \<lparr>objects = [newGraphNode ''a'' 6 8], nodes = [(''a'', 0)],
                  edges = [\<lparr>source = Proto ''constructor'', target = Obj 0\<rparr>]\<rparr>"
  by (simp add: g_inherited_def build_def emptyGraph_def addNode_def addEdge_def nodeAt_def
      dict_get_def protoNames_def)

lemma g_readded_eval:
  "g_readded = \<lparr>objects = [newGraphNode ''a'' 6 8, newGraphNode ''b'' 6 8, newGraphNode ''a'' 6 8],
                nodes = [(''a'', 2), (''b'', 1)],
                edges = [\<lparr>source = Obj 0, target = Obj 1\<rparr>, \<lparr>source = Obj 2, target = Obj 1\<rparr>]\<rparr>"
  by (simp add: g_readded_def build_def emptyGraph_def addNode_def addEdge_def nodeAt_def
      dict_get_def edgeJoins_def)

text \<open>
  C7. \<^verbatim>\<open>addEdge\<close> does not keep one edge per pair of identifiers, and does not ignore every
  unknown identifier. The identifier \<open>constructor\<close> is not a node of the graph with the
  single node \<open>a\<close>, yet \<^verbatim>\<open>addEdge('constructor', 'a')\<close> appends an edge: \<^verbatim>\<open>this.nodes[sourceId]\<close>
  finds the function that every plain object inherits under that name, a truthy value.
  And once the identifier \<open>a\<close> was added again, \<^verbatim>\<open>addEdge('a', 'b')\<close> appends a second edge
  whose ends carry the identifiers \<open>a\<close> and \<open>b\<close>, for the old edge joins the replaced
  node object and \<^verbatim>\<open>addEdge\<close> compares objects; a third call changes nothing.
\<close>

theorem C7_addEdge_not_once:
  "map_of (nodes (build [AddNode ''a'' 6 8])) ''constructor'' = None
   \<and> edges (build [AddNode ''a'' 6 8]) = []
   \<and> g_inherited = addEdge ''constructor'' ''a'' (build [AddNode ''a'' 6 8])
   \<and> edges g_inherited = [\<lparr>source = Proto ''constructor'', target = Obj 0\<rparr>]
   \<and> g_readded = addEdge ''a'' ''b'' (addNode ''a'' 6 8 (addEdge ''a'' ''b'' g_two))
   \<and> edges (addEdge ''a'' ''b'' g_two) = [\<lparr>source = Obj 0, target = Obj 1\<rparr>]
   \<and> edges g_readded = [\<lparr>source = Obj 0, target = Obj 1\<rparr>, \<lparr>source = Obj 2, target = Obj 1\<rparr>]
   \<and> map (\<lambda>e. (endId (objects g_readded) (source e), endId (objects g_readded) (target e)))
         (edges g_readded) = [(''a'', ''b''), (''a'', ''b'')]
   \<and> addEdge ''a'' ''b'' g_readded = g_readded"
proof -
  have 1: "build [AddNode ''a'' 6 8] = \<lparr>objects = [newGraphNode ''a'' 6 8], nodes = [(''a'', 0)], edges = []\<rparr>"
    by (simp add: build_def emptyGraph_def addNode_def)
  have 2: "g_inherited = addEdge ''constructor'' ''a'' (build [AddNode ''a'' 6 8])"
    by (simp add: g_inherited_def build_def)
  have 3: "g_readded = addEdge ''a'' ''b'' (addNode ''a'' 6 8 (addEdge ''a'' ''b'' g_two))"
    by (simp add: g_readded_def g_two_def build_def)
  have 4: "edges (addEdge ''a'' ''b'' g_two) = [\<lparr>source = Obj 0, target = Obj 1\<rparr>]"
    by (simp add: g_two_eval addEdge_def nodeAt_def dict_get_def)
  have 5: "addEdge ''a'' ''b'' g_readded = g_readded"
    unfolding 3 by (rule addEdge_idem)
  show ?thesis
    apply (intro conjI)
    subgoal by (simp add: 1)
    subgoal by (simp add: 1)
    subgoal by (rule 2)
    subgoal by (simp add: g_inherited_eval)
    subgoal by (rule 3)
    subgoal by (rule 4)
    subgoal by (simp add: g_readded_eval)
    subgoal by (simp add: g_readded_eval newGraphNode_def)
    subgoal by (rule 5)
    done
qed

subsection \<open>Building a layout: fillEdges and changePositions\<close>

lemma mapE_Inr_D: "mapE f xs = Inr ys \<Longrightarrow> list_all2 (\<lambda>x y. f x = Inr y) xs ys"
proof (induction xs arbitrary: ys)
  case Nil then show ?case by simp
next
  case (Cons a as)
  then show ?case by (auto split: sum.splits)
qed

lemma mapE_Inr_I: "list_all2 (\<lambda>x y. f x = Inr y) xs ys \<Longrightarrow> mapE f xs = Inr ys"
  by (induction xs ys rule: list_all2_induct) auto

lemma mapE_total:
  "\<forall>x \<in> set xs. \<exists>y. f x = Inr y \<Longrightarrow> \<exists>ys. mapE f xs = Inr ys"
  by (induction xs) auto

lemma mapE_cong_set: "(\<And>x. x \<in> set xs \<Longrightarrow> f x = g x) \<Longrightarrow> mapE f xs = mapE g xs"
  by (induction xs) (auto split: sum.splits)

lemma dict_get_Own: "dict_get d k = Own v \<longleftrightarrow> map_of d k = Some v"
  by (simp add: dict_get_def split: option.splits)

lemma dict_get_key: "k \<in> fst ` set d \<Longrightarrow> \<exists>v. dict_get d k = Own v"
  by (simp add: dict_get_Own) (metis domD dom_map_of_conv_image_fst)

lemma layoutEdge_cong:
  "graph l = graph l' \<Longrightarrow> layout_nodes l = layout_nodes l' \<Longrightarrow> layoutEdge l = layoutEdge l'"
  by (auto simp: layoutEdge_def fun_eq_iff split: lookup.splits)

lemma layoutEdge_Inr_D:
  assumes "layoutEdge l e = Inr le"
  shows "edge le = e"
    and "map_of (layout_nodes l) (endId (objects (graph l)) (source e)) = Some (source_node le)"
    and "map_of (layout_nodes l) (endId (objects (graph l)) (target e)) = Some (target_node le)"
    and "edge_length le = rectangleDistance (source_node le) (target_node le)"
  using assms
  by (auto simp: layoutEdge_def distanceTo_def dict_get_Own split: lookup.splits)

lemma fillEdges_Inr_D:
  assumes "fillEdges l = Inr l'"
  shows "graph l' = graph l" and "layout_nodes l' = layout_nodes l"
    and "list_all2 (\<lambda>e le. layoutEdge l' e = Inr le) (edges (graph l')) (layout_edges l')"
proof -
  from assms obtain es where es: "mapE (layoutEdge l) (edges (graph l)) = Inr es"
    and l': "l' = l\<lparr>layout_edges := es\<rparr>"
    by (auto simp: fillEdges_def split: sum.splits)
  show g: "graph l' = graph l" and n: "layout_nodes l' = layout_nodes l" by (simp_all add: l')
  have "layoutEdge l' = layoutEdge l" by (rule layoutEdge_cong) (simp_all add: g n)
  with mapE_Inr_D[OF es] show "list_all2 (\<lambda>e le. layoutEdge l' e = Inr le) (edges (graph l')) (layout_edges l')"
    by (simp add: l')
qed

lemma fillEdges_fixed:
  assumes "fillEdges l = Inr l'" shows "fillEdges l' = Inr l'"
proof -
  from fillEdges_Inr_D(3)[OF assms] have "mapE (layoutEdge l') (edges (graph l')) = Inr (layout_edges l')"
    by (rule mapE_Inr_I)
  then show ?thesis by (simp add: fillEdges_def)
qed

lemma fillEdges_edges:
  assumes "fillEdges l = Inr l'" shows "map edge (layout_edges l') = edges (graph l')"
proof -
  have "list_all2 (\<lambda>e le. edge le = e) (edges (graph l')) (layout_edges l')"
    using fillEdges_Inr_D(3)[OF assms] by (rule list_all2_mono) (simp add: layoutEdge_Inr_D(1))
  then have "list_all2 (\<lambda>e le. e = edge le) (edges (graph l')) (layout_edges l')" 
    by (rule list_all2_mono) simp
  then show ?thesis by (simp add: list_all2_conv_all_nth list_eq_iff_nth_eq)
qed

lemma fillEdges_ignores_edges: "fillEdges (l\<lparr>layout_edges := es\<rparr>) = fillEdges (l\<lparr>layout_edges := es'\<rparr>)"
proof -
  have "layoutEdge (l\<lparr>layout_edges := es\<rparr>) = layoutEdge (l\<lparr>layout_edges := es'\<rparr>)"
    by (rule layoutEdge_cong) simp_all
  then show ?thesis by (simp add: fillEdges_def split: sum.splits)
qed

lemma layoutEdge_total:
  assumes "endId (objects (graph l)) (source e) \<in> fst ` set (layout_nodes l)"
    and "endId (objects (graph l)) (target e) \<in> fst ` set (layout_nodes l)"
  shows "\<exists>le. layoutEdge l e = Inr le"
proof -
  from assms obtain n1 n2 where
    "dict_get (layout_nodes l) (endId (objects (graph l)) (source e)) = Own n1"
    "dict_get (layout_nodes l) (endId (objects (graph l)) (target e)) = Own n2"
    using dict_get_key by metis
  then show ?thesis by (simp add: layoutEdge_def)
qed

lemma layoutEdge_Inr_keys:
  assumes "layoutEdge l e = Inr le"
  shows "endId (objects (graph l)) (source e) \<in> fst ` set (layout_nodes l)"
    and "endId (objects (graph l)) (target e) \<in> fst ` set (layout_nodes l)"
  using layoutEdge_Inr_D(2,3)[OF assms] by (metis domI dom_map_of_conv_image_fst)+

lemma fillEdges_total: "placed l \<Longrightarrow> \<exists>l'. fillEdges l = Inr l'"
proof -
  assume p: "placed l"
  have "\<forall>e \<in> set (edges (graph l)). \<exists>le. layoutEdge l e = Inr le"
    using p layoutEdge_total unfolding placed_def by blast
  from mapE_total[OF this] show ?thesis by (auto simp: fillEdges_def)
qed

lemma fillEdges_placed: assumes "fillEdges l = Inr l'" shows "placed l'"
  unfolding placed_def
proof
  fix e assume "e \<in> set (edges (graph l'))"
  with fillEdges_Inr_D(3)[OF assms] obtain le where "layoutEdge l' e = Inr le"
    by (auto simp: list_all2_conv_all_nth in_set_conv_nth)
  from layoutEdge_Inr_keys[OF this]
  show "endId (objects (graph l')) (source e) \<in> fst ` set (layout_nodes l') \<and>
        endId (objects (graph l')) (target e) \<in> fst ` set (layout_nodes l')" by simp
qed

lemma layout_of_placed: "layout_of g l \<Longrightarrow> placed l"
  by (auto simp: layout_of_def intro: fillEdges_placed)

lemma mapValues_Inr_D:
  "mapValues f d = Inr d' \<Longrightarrow>
     map fst d' = map fst d \<and> list_all2 (\<lambda>p q. f (snd p) = Inr (snd q)) d d'"
  unfolding mapValues_def
proof (induction d arbitrary: d')
  case Nil then show ?case by simp
next
  case (Cons a as)
  then show ?case by (auto split: sum.splits)
qed

lemma mapValues_keys: "mapValues f d = Inr d' \<Longrightarrow> map fst d' = map fst d"
  by (simp add: mapValues_Inr_D)

lemma mapValues_pure: "mapValues (\<lambda>x. Inr (f x)) d = Inr (map (\<lambda>p. (fst p, f (snd p))) d)"
  unfolding mapValues_def by (induction d) auto

lemma mapValues_total:
  "\<forall>n \<in> set (values_of d). \<exists>m. f n = Inr m \<Longrightarrow> \<exists>d'. mapValues f d = Inr d'"
  unfolding mapValues_def values_of_def by (induction d) auto

lemma mapValues_nil: "mapValues f [] = Inr []"
  by (simp add: mapValues_def)

lemma changePositions_total:
  assumes "placed l" and "\<forall>n \<in> set (values_of (layout_nodes l)). \<exists>m. f n = Inr m"
  shows "\<exists>l'. changePositions f l = Inr l'"
proof -
  from mapValues_total[OF assms(2)] obtain ns where ns: "mapValues f (layout_nodes l) = Inr ns"
    by blast
  have "placed ((newGraphLayout (graph l))\<lparr>layout_nodes := ns\<rparr>)"
    using assms(1) mapValues_keys[OF ns]
    by (simp add: placed_def newGraphLayout_def) (metis list.set_map)
  from fillEdges_total[OF this] show ?thesis by (simp add: changePositions_def ns)
qed

lemma changePositions_total_pure:
  assumes "placed l" shows "\<exists>l'. changePositions (\<lambda>x. Inr (f x)) l = Inr l'"
  using changePositions_total[OF assms, of "\<lambda>x. Inr (f x)"] by simp

lemma changePositions_Inr_D:
  assumes "changePositions f l = Inr l'"
  shows "graph l' = graph l" and "mapValues f (layout_nodes l) = Inr (layout_nodes l')"
    and "fillEdges l' = Inr l'" and "map edge (layout_edges l') = edges (graph l)"
    and "map fst (layout_nodes l') = map fst (layout_nodes l)"
proof -
  from assms obtain ns where ns: "mapValues f (layout_nodes l) = Inr ns"
    and f: "fillEdges ((newGraphLayout (graph l))\<lparr>layout_nodes := ns\<rparr>) = Inr l'"
    by (auto simp: changePositions_def split: sum.splits)
  show g: "graph l' = graph l" using fillEdges_Inr_D(1)[OF f] by (simp add: newGraphLayout_def)
  have n: "layout_nodes l' = ns" using fillEdges_Inr_D(2)[OF f] by (simp add: newGraphLayout_def)
  show "mapValues f (layout_nodes l) = Inr (layout_nodes l')" by (simp add: ns n)
  show "fillEdges l' = Inr l'" by (rule fillEdges_fixed[OF f])
  show "map edge (layout_edges l') = edges (graph l)" using fillEdges_edges[OF f] g by simp
  show "map fst (layout_nodes l') = map fst (layout_nodes l)"
    using mapValues_keys[OF ns] by (simp add: n)
qed

lemma changePositions_pure_nodes:
  assumes "changePositions (\<lambda>x. Inr (f x)) l = Inr l'"
  shows "layout_nodes l' = map (\<lambda>p. (fst p, f (snd p))) (layout_nodes l)"
  using changePositions_Inr_D(2)[OF assms] by (simp add: mapValues_pure)

lemma changePositions_layout_of:
  assumes "layout_of g l" "changePositions f l = Inr l'"
  shows "layout_of g l'"
  using assms changePositions_Inr_D[OF assms(2)]
  by (simp add: layout_of_def)


lemma newLayoutNode_node: "node (newLayoutNode n x y) = n"
  by (simp add: newLayoutNode_def)

lemma translate_node: "node (translate n dx dy) = node n"
  by (simp add: translate_def newLayoutNode_node)

lemma moveNode_node: "moveNode fs n = Inr m \<Longrightarrow> node m = node n"
  by (auto simp: moveNode_def translate_node split: option.splits if_splits)

lemma changePositions_keyed:
  assumes "keyed l" "changePositions f l = Inr l'" "\<And>n m. f n = Inr m \<Longrightarrow> node m = node n"
  shows "keyed l'"
proof -
  from mapValues_Inr_D[OF changePositions_Inr_D(2)[OF assms(2)]]
  have k: "map fst (layout_nodes l') = map fst (layout_nodes l)"
    and a: "list_all2 (\<lambda>p q. f (snd p) = Inr (snd q)) (layout_nodes l) (layout_nodes l')"
    by simp_all
  have "\<forall>q \<in> set (layout_nodes l'). designerId (node (snd q)) = fst q"
  proof
    fix q assume "q \<in> set (layout_nodes l')"
    then obtain j where j: "j < length (layout_nodes l')" "q = layout_nodes l' ! j"
      by (auto simp: in_set_conv_nth)
    let ?p = "layout_nodes l ! j"
    from a j have len: "j < length (layout_nodes l)" and fp: "f (snd ?p) = Inr (snd q)"
      by (auto simp: list_all2_conv_all_nth)
    from k j len have "fst q = fst ?p" by (metis nth_map length_map)
    moreover from assms(1) len have "designerId (node (snd ?p)) = fst ?p"
      by (auto simp: keyed_def)
    moreover from assms(3)[OF fp] have "node (snd q) = node (snd ?p)" .
    ultimately show "designerId (node (snd q)) = fst q" by simp
  qed
  with assms(1) k show ?thesis by (simp add: keyed_def)
qed

subsection \<open>The traversal and the placement loop of createCircle\<close>

lemma set_insertBy: "set (insertBy objs r qs) = insert r (set qs)"
  by (induction qs) auto

lemma set_sortBy: "set (sortBy objs rs) = set rs"
  by (induction rs) (simp_all add: sortBy_def set_insertBy)

lemma length_insertBy: "length (insertBy objs r qs) = Suc (length qs)"
  by (induction qs) auto

lemma length_sortBy: "length (sortBy objs rs) = length rs"
  by (induction rs) (simp_all add: sortBy_def length_insertBy)

lemma refsOf_Some: "refsOf xs = Some ns \<Longrightarrow> xs = map Obj ns"
proof (induction xs arbitrary: ns)
  case Nil then show ?case by simp
next
  case (Cons x xs)
  then show ?case by (cases x) auto
qed

lemma refsOf_map_Obj: "refsOf (map Obj ns) = Some ns"
  by (induction ns) auto


lemma dfs_props:
  assumes "addedNodes = idOf objs ` set res" and "distinct (map (idOf objs) res)"
    and "\<forall>r \<in> set res. r < length objs"
    and "addNodeNeighboors objs todo res addedNodes = Inr R"
  shows "(\<exists>ext. R = res @ ext)
       \<and> distinct (map (idOf objs) R)
       \<and> (\<forall>r \<in> set R. r < length objs)
       \<and> (\<forall>r \<in> set todo. r < length objs \<longrightarrow> idOf objs r \<in> idOf objs ` set R)"
  using assms
proof (induction objs todo res addedNodes arbitrary: R rule: addNodeNeighboors.induct)
  case (1 objs res addedNodes)
  then show ?case by simp
next
  case (2 objs r todo res addedNodes)
  show ?case
  proof (cases "r < length objs \<and> idOf objs r \<notin> addedNodes")
    case True
    from "2.prems"(4) True obtain ns where ns: "refsOf (neightboors (objs ! r)) = Some ns"
      and eq: "addNodeNeighboors objs (sortBy objs ns @ todo) (res @ [r])
                (insert (idOf objs r) addedNodes) = Inr R"
      by (auto split: option.splits)
    have a1: "insert (idOf objs r) addedNodes = idOf objs ` set (res @ [r])" using "2.prems"(1) by auto
    have a2: "distinct (map (idOf objs) (res @ [r]))" using "2.prems"(1,2) True by auto
    have a3: "\<forall>q \<in> set (res @ [r]). q < length objs" using "2.prems"(3) True by auto
    from "2.IH"(1)[OF True ns a1 a2 a3 eq]
    have ih: "(\<exists>ext. R = (res @ [r]) @ ext)" "distinct (map (idOf objs) R)"
      "\<forall>q \<in> set R. q < length objs"
      "\<forall>q \<in> set (sortBy objs ns @ todo). q < length objs \<longrightarrow>
             idOf objs q \<in> idOf objs ` set R" by blast+
    from ih(1) obtain ext where ext: "R = res @ (r # ext)" by auto
    then have "r \<in> set R" by simp
    with ih ext show ?thesis by auto
  next
    case False
    have eq: "addNodeNeighboors objs todo res addedNodes = Inr R"
      using False "2.prems"(4) by auto
    from "2.IH"(2)[OF False "2.prems"(1,2,3) eq]
    have ih: "(\<exists>ext. R = res @ ext)" "distinct (map (idOf objs) R)"
      "\<forall>q \<in> set R. q < length objs"
      "\<forall>q \<in> set todo. q < length objs \<longrightarrow> idOf objs q \<in> idOf objs ` set R" by blast+
    from ih(1) obtain ext where ext: "R = res @ ext" by auto
    have "r < length objs \<longrightarrow> idOf objs r \<in> idOf objs ` set R"
      using False "2.prems"(1) ext by auto
    with ih show ?thesis by auto
  qed
qed


lemma dfs_throws:
  assumes "r < length objs" and "Proto n \<in> set (neightboors (objs ! r))"
  shows "addNodeNeighboors objs (r # todo) [] {} = Inl TypeError"
proof -
  have "refsOf (neightboors (objs ! r)) = None"
  proof (cases "refsOf (neightboors (objs ! r))")
    case None then show ?thesis .
  next
    case (Some ns)
    from refsOf_Some[OF this] assms(2) show ?thesis by auto
  qed
  with assms(1) show ?thesis by simp
qed

lemma dfs_head:
  assumes "r < length objs" and "addNodeNeighboors objs (r # todo) [] {} = Inr R"
  shows "\<exists>ext. R = r # ext"
proof -
  from assms obtain ns where ns: "refsOf (neightboors (objs ! r)) = Some ns"
    and eq: "addNodeNeighboors objs (sortBy objs ns @ todo) ([] @ [r])
          (insert (idOf objs r) {}) = Inr R"
    by (auto split: option.splits)
  have "\<exists>ext. R = ([] @ [r]) @ ext"
    using dfs_props[of "insert (idOf objs r) {}" objs "[] @ [r]", OF _ _ _ eq] assms(1) by simp
  then show ?thesis by simp
qed

lemma dict_set_fresh: "k \<notin> fst ` set d \<Longrightarrow> dict_set k v d = d @ [(k, v)]"
  by (induction d) auto

lemma placeNodes_eq:
  assumes "distinct (map (idOf objs) ns)" and "idOf objs ` set ns \<inter> fst ` set d = {}"
  shows "placeNodes objs r dangle angle ns d =
           d @ map (\<lambda>k. (idOf objs (ns ! k),
                        newLayoutNode (objs ! (ns ! k)) (sin (angle + real k * dangle) * r)
                                                         (cos (angle + real k * dangle) * r)))
                  [0..<length ns]"
  using assms
proof (induction ns arbitrary: angle d)
  case Nil
  then show ?case by simp
next
  case (Cons n ns)
  let ?d = "dict_set (idOf objs n) (newLayoutNode (objs ! n) (sin angle * r) (cos angle * r)) d"
  have fresh: "idOf objs n \<notin> fst ` set d" using Cons.prems(2) by auto
  then have d': "?d = d @ [(idOf objs n, newLayoutNode (objs ! n) (sin angle * r) (cos angle * r))]"
    by (rule dict_set_fresh)
  have 1: "distinct (map (idOf objs) ns)" using Cons.prems(1) by simp
  have 2: "idOf objs ` set ns \<inter> fst ` set ?d = {}" using Cons.prems unfolding d' by auto
  have "placeNodes objs r dangle angle (n # ns) d = placeNodes objs r dangle (angle + dangle) ns ?d"
    by simp
  also have "\<dots> = ?d @ map (\<lambda>k. (idOf objs (ns ! k),
                        newLayoutNode (objs ! (ns ! k)) (sin (angle + dangle + real k * dangle) * r)
                                                         (cos (angle + dangle + real k * dangle) * r)))
                  [0..<length ns]"
    by (rule Cons.IH[OF 1 2])
  also have "\<dots> = d @ map (\<lambda>k. (idOf objs ((n # ns) ! k),
                        newLayoutNode (objs ! ((n # ns) ! k)) (sin (angle + real k * dangle) * r)
                                                         (cos (angle + real k * dangle) * r)))
                  [0..<length (n # ns)]"
    unfolding d' by (simp add: upt_conv_Cons map_Suc_upt[symmetric] algebra_simps del: upt_Suc)
  finally show ?case .
qed

subsection \<open>The graph invariants after initialize\<close>

lemma scanEdge_set: "set (scanEdge r ns e) \<subseteq> set ns \<union> {source e, target e}"
  by (auto simp: scanEdge_def Let_def)

lemma foldl_scanEdge_set:
  "set (foldl (scanEdge r) ns es) \<subseteq> set ns \<union> source ` set es \<union> target ` set es"
proof (induction es arbitrary: ns)
  case Nil then show ?case by simp
next
  case (Cons e es)
  from Cons.IH[of "scanEdge r ns e"] scanEdge_set[of r ns e] show ?case by auto
qed

lemma initNode_neightboors:
  "neightboors (initNode es r n) = foldl (scanEdge r) (neightboors n) es"
  by (simp add: initNode_def node_initialize_def)

lemma initStep_all:
  assumes "length objs = k" and "\<forall>j < k. \<forall>m \<in> set (neightboors (objs ! j)). P m"
    and "\<forall>e \<in> set es. P (source e) \<and> P (target e)"
  shows "\<forall>j < k. \<forall>m \<in> set (neightboors (initStep es objs r ! j)). P m"
proof (intro allI impI ballI)
  fix j m assume j: "j < k" and m: "m \<in> set (neightboors (initStep es objs r ! j))"
  show "P m"
  proof (cases "j = r")
    case True
    with j assms(1) m have "m \<in> set (foldl (scanEdge r) (neightboors (objs ! r)) es)"
      by (simp add: initStep_def initNode_neightboors)
    with foldl_scanEdge_set[of r "neightboors (objs ! r)" es]
    have "m \<in> set (neightboors (objs ! r)) \<or> m \<in> source ` set es \<or> m \<in> target ` set es" by auto
    with assms(2) True j assms(3) show ?thesis by auto
  next
    case False
    with m have "m \<in> set (neightboors (objs ! j))" by (simp add: initStep_def)
    with assms(2) j show ?thesis by blast
  qed
qed

lemma foldl_initStep_all:
  assumes "length objs = k" and "\<forall>j < k. \<forall>m \<in> set (neightboors (objs ! j)). P m"
    and "\<forall>e \<in> set es. P (source e) \<and> P (target e)"
  shows "\<forall>j < k. \<forall>m \<in> set (neightboors (foldl (initStep es) objs rs ! j)). P m"
  using assms(1,2)
proof (induction rs arbitrary: objs)
  case Nil then show ?case by simp
next
  case (Cons r rs)
  have "length (initStep es objs r) = k" using Cons.prems(1) by (simp add: initStep_length)
  from Cons.IH[OF this initStep_all[OF Cons.prems(1,2) assms(3)]] show ?case by simp
qed

lemma foldl_initStep_refs_ok:
  assumes "refs_ok k objs" and "\<forall>e \<in> set es. valid k (source e) \<and> valid k (target e)"
  shows "refs_ok k (foldl (initStep es) objs rs)"
proof -
  from assms(1) have len: "length objs = k"
    and nb: "\<forall>j < k. \<forall>m \<in> set (neightboors (objs ! j)). valid k m"
    by (simp_all add: refs_ok_def)
  from foldl_initStep_all[of objs k "valid k" es rs, OF len nb assms(2)]
  have "\<forall>j < k. \<forall>m \<in> set (neightboors (foldl (initStep es) objs rs ! j)). valid k m" .
  moreover have "length (foldl (initStep es) objs rs) = k"
    using len by (simp only: foldl_initStep_length)
  ultimately show ?thesis unfolding refs_ok_def by (rule conjI[rotated])
qed

lemma wf_graph_alt:
  "wf_graph g \<longleftrightarrow>
     distinct (map fst (nodes g)) \<and>
     (\<forall>p \<in> set (nodes g). snd p < length (objects g) \<and> designerId (objects g ! snd p) = fst p) \<and>
     (\<forall>j < length (objects g). designerId (objects g ! j) \<in> fst ` set (nodes g)) \<and>
     refs_ok (length (objects g)) (objects g) \<and>
     (\<forall>e \<in> set (edges g). valid (length (objects g)) (source e) \<and>
                          valid (length (objects g)) (target e))"
  unfolding wf_graph_def refs_ok_def by (auto simp: all_set_conv_all_nth)

lemma wf_initialize:
  assumes "wf_graph g" shows "wf_graph (initialize g)"
proof -
  let ?o = "foldl (initStep (edges g)) (objects g) (map snd (nodes g))"
  have o: "objects (initialize g) = ?o" and n: "nodes (initialize g) = nodes g"
    and e: "edges (initialize g) = edges g" by (simp_all add: initialize_alt)
  have len: "length ?o = length (objects g)" by (rule foldl_initStep_length)
  from assms have w: "distinct (map fst (nodes g))"
    "\<forall>p \<in> set (nodes g). snd p < length (objects g) \<and> designerId (objects g ! snd p) = fst p"
    "\<forall>j < length (objects g). designerId (objects g ! j) \<in> fst ` set (nodes g)"
    "refs_ok (length (objects g)) (objects g)"
    "\<forall>e \<in> set (edges g). valid (length (objects g)) (source e) \<and>
                         valid (length (objects g)) (target e)"
    by (simp_all add: wf_graph_alt)
  have r: "refs_ok (length (objects g)) ?o" by (rule foldl_initStep_refs_ok[OF w(4) w(5)])
  show ?thesis
    unfolding wf_graph_alt o n e len using w r by (simp add: foldl_initStep_fields)
qed

lemma initialized_initialize:
  assumes "wf_graph g" shows "initialized (initialize g)"
  unfolding initialized_def
proof
  fix p assume "p \<in> set (nodes (initialize g))"
  then have p: "p \<in> set (nodes g)" by (simp add: initialize_alt)
  with assms have r: "snd p < length (objects g)" by (auto simp: wf_graph_def)
  from p have rs: "snd p \<in> set (map snd (nodes g))" by simp
  show "radius (objects (initialize g) ! snd p) \<noteq> None"
    using foldl_initStep_radius[OF rs r, of "edges g"] by (simp add: initialize_alt)
qed

subsection \<open>The ordered nodes and the circular layout\<close>

lemma circle_props:
  assumes wf: "wf_graph g" and ns: "circleSortedNodes g = Inr ns"
  shows "distinct (map (idOf (objects g)) ns)"
    and "\<forall>r \<in> set ns. r < length (objects g)"
    and "idOf (objects g) ` set ns = fst ` set (nodes g)"
    and "length ns = length (nodes g)"
proof -
  let ?objs = "objects g" and ?todo = "sortBy (objects g) (values_of (nodes g))"
  have R: "addNodeNeighboors ?objs ?todo [] {} = Inr ns"
    using ns by (simp add: circleSortedNodes_def)
  from dfs_props[of "{}" ?objs "[]" ?todo ns, OF _ _ _ R]
  have d: "distinct (map (idOf ?objs) ns)" and v: "\<forall>r \<in> set ns. r < length ?objs"
    and c: "\<forall>r \<in> set ?todo. r < length ?objs \<longrightarrow> idOf ?objs r \<in> idOf ?objs ` set ns"
    by simp_all
  show "distinct (map (idOf ?objs) ns)" by (rule d)
  show "\<forall>r \<in> set ns. r < length ?objs" by (rule v)
  have sub: "idOf ?objs ` set ns \<subseteq> fst ` set (nodes g)"
    using v wf by (auto simp: wf_graph_alt)
  have sup: "fst ` set (nodes g) \<subseteq> idOf ?objs ` set ns"
  proof
    fix k assume "k \<in> fst ` set (nodes g)"
    then obtain p where p: "p \<in> set (nodes g)" "fst p = k" by auto
    with wf have "snd p < length ?objs" "idOf ?objs (snd p) = k" by (auto simp: wf_graph_def)
    moreover have "snd p \<in> set ?todo" using p by (simp add: set_sortBy values_of_def)
    ultimately show "k \<in> idOf ?objs ` set ns" using c by auto
  qed
  from sub sup show eq: "idOf ?objs ` set ns = fst ` set (nodes g)" by blast
  have "length ns = card (idOf ?objs ` set ns)"
    using d by (metis distinct_card length_map list.set_map)
  also have "\<dots> = card (fst ` set (nodes g))" by (simp add: eq)
  also have "\<dots> = length (nodes g)"
    using wf by (metis distinct_card length_map list.set_map wf_graph_def)
  finally show "length ns = length (nodes g)" .
qed

lemma circle_head_current:
  assumes wf: "wf_graph g" and ne: "nodes g \<noteq> []" and ns: "circleSortedNodes g = Inr ns"
  shows "\<exists>p \<in> set (nodes g). snd p \<in> set ns"
proof -
  let ?todo = "sortBy (objects g) (values_of (nodes g))"
  have "length ?todo \<noteq> 0" using ne by (simp add: length_sortBy values_of_def)
  then obtain r todo where t: "?todo = r # todo" by (cases ?todo) auto
  then have "r \<in> set ?todo" by simp
  then have "r \<in> snd ` set (nodes g)" by (simp add: set_sortBy values_of_def)
  then obtain p where p: "p \<in> set (nodes g)" "snd p = r" by auto
  with wf have r: "r < length (objects g)" by (auto simp: wf_graph_def)
  have "addNodeNeighboors (objects g) (r # todo) [] {} = Inr ns"
    using ns by (simp add: circleSortedNodes_def t)
  from dfs_head[OF r this] have "r \<in> set ns" by auto
  with p show ?thesis by auto
qed

lemma jsMax_props:
  assumes "as \<noteq> []"
  shows "\<exists>m. jsMax as = Some m \<and> m \<in> set as \<and> (\<forall>a \<in> set as. a \<le> m)"
proof -
  have f: "\<And>a. foldl max a bs \<in> insert a (set bs) \<and> a \<le> foldl max a bs \<and> (\<forall>b \<in> set bs. b \<le> foldl max a bs)" for bs :: "real list"
  proof (induction bs)
    case Nil show ?case by simp
  next
    case (Cons b bs)
    from Cons[of "max a b"] show ?case by (auto simp: max_def split: if_splits)
  qed
  from assms obtain a bs where "as = a # bs" by (cases as) auto
  with f[of a bs] show ?thesis by auto
qed


lemma defined_set:
  "set (concat (map (\<lambda>a. case a of None \<Rightarrow> [] | Some v \<Rightarrow> [v]) as)) = {v. Some v \<in> set as}"
  by (induction as) (auto split: option.splits)

lemma jsMaxDefined_props:
  assumes "Some v \<in> set as"
  shows "\<exists>m. jsMaxDefined as = Some m \<and> Some m \<in> set as \<and> (\<forall>a. Some a \<in> set as \<longrightarrow> a \<le> m)"
proof -
  let ?ds = "concat (map (\<lambda>a. case a of None \<Rightarrow> [] | Some v \<Rightarrow> [v]) as)"
  have "v \<in> set ?ds" using assms by (simp only: defined_set mem_Collect_eq)
  then have "?ds \<noteq> []" by (metis empty_iff list.set(1))
  from jsMax_props[OF this] show ?thesis unfolding jsMaxDefined_def by (auto simp: defined_set)
qed

lemma build_radius_None: "\<forall>n \<in> set (objects (build cs)). radius n = None"
proof (induction cs rule: rev_induct)
  case Nil show ?case by (simp add: build_def emptyGraph_def)
next
  case (snoc c cs)
  show ?case
  proof (cases c)
    case (AddNode i w h)
    with snoc show ?thesis by (auto simp: build_def addNode_def newGraphNode_def)
  next
    case (AddEdge a b)
    with snoc show ?thesis by (auto simp: build_def addEdge_def split: option.splits)
  qed
qed

lemma initStep_radius_cases:
  "radius (initStep es objs r ! j) = radius (objs ! j) \<or>
   (\<exists>v. radius (initStep es objs r ! j) = Some (sqrt v))"
  by (cases "j = r"; cases "r < length objs"; simp add: initStep_def initNode_fields list_update_beyond)

lemma foldl_initStep_radius_cases:
  "radius (foldl (initStep es) objs rs ! j) = radius (objs ! j) \<or>
   (\<exists>v. 0 \<le> v \<and> radius (foldl (initStep es) objs rs ! j) = Some (sqrt v))"
proof (induction rs rule: rev_induct)
  case Nil show ?case by simp
next
  case (snoc r rs)
  let ?o = "foldl (initStep es) objs rs"
  show ?case
  proof (cases "j = r \<and> r < length ?o")
    case True
    then have "radius (initStep es ?o r ! j)
        = Some (sqrt ((width (?o ! r) * width (?o ! r)) / 4 + (height (?o ! r) * height (?o ! r)) / 4))"
      by (simp add: initStep_def initNode_fields)
    moreover have "0 \<le> (width (?o ! r) * width (?o ! r)) / 4 + (height (?o ! r) * height (?o ! r)) / 4"
      by simp
    ultimately show ?thesis by (metis foldl_Cons foldl_Nil foldl_append)
  next
    case False
    then have "initStep es ?o r ! j = ?o ! j" by (auto simp: initStep_def list_update_beyond)
    with snoc show ?thesis by simp
  qed
qed

lemma radii_nonneg_initialize_build: "radii_nonneg (initialize (build cs))"
  unfolding radii_nonneg_def
proof (intro allI impI)
  fix j v
  assume j: "j < length (objects (initialize (build cs)))"
    and v: "radius (objects (initialize (build cs)) ! j) = Some v"
  let ?g = "build cs"
  have o: "objects (initialize ?g) = foldl (initStep (edges ?g)) (objects ?g) (map snd (nodes ?g))"
    by (simp add: initialize_alt)
  from j have "j < length (objects ?g)" by (simp add: o foldl_initStep_length)
  then have "radius (objects ?g ! j) = None" using build_radius_None[of cs] by simp
  with foldl_initStep_radius_cases[of "edges ?g" "objects ?g" "map snd (nodes ?g)" j] v
  show "0 \<le> v" unfolding o by auto
qed

lemma ready_initialize_build: "ready (initialize (build cs))"
  by (simp add: ready_def wf_initialize wf_build initialized_initialize radii_nonneg_initialize_build)

lemma circleNodes_keys: "map fst (circleNodes objs ns r) = map (idOf objs) ns"
proof -
  have "map (idOf objs) ns = map (idOf objs) (map (\<lambda>k. ns ! k) [0..<length ns])"
    by (simp only: map_nth)
  also have "\<dots> = map (\<lambda>k. idOf objs (ns ! k)) [0..<length ns]"
    by (simp only: map_map comp_def)
  finally show ?thesis by (simp only: circleNodes_def map_map comp_def fst_conv)
qed


lemma createCircle_main:
  assumes rd: "ready g" and ne: "nodes g \<noteq> []" and ns: "circleSortedNodes g = Inr ns"
  shows "\<exists>R. jsMaxDefined (map (\<lambda>x. radius (objects g ! x)) ns) = Some R
           \<and> 0 \<le> R
           \<and> createCircle g = fillEdges ((newGraphLayout g)
                \<lparr>layout_nodes := circleNodes (objects g) ns
                                   ((real (length ns) * R) / (2 * pi) + R)\<rparr>)"
proof -
  from rd have wf: "wf_graph g" and init: "initialized g" and nn: "radii_nonneg g"
    by (simp_all add: ready_def)
  let ?objs = "objects g"
  from circle_head_current[OF wf ne ns] obtain p where p: "p \<in> set (nodes g)" "snd p \<in> set ns" by auto
  with init obtain v where "radius (?objs ! snd p) = Some v" by (auto simp: initialized_def)
  with p(2) have "Some v \<in> set (map (\<lambda>x. radius (?objs ! x)) ns)" by force
  from jsMaxDefined_props[OF this] obtain R where
    R: "jsMaxDefined (map (\<lambda>x. radius (?objs ! x)) ns) = Some R"
    and Rin: "Some R \<in> set (map (\<lambda>x. radius (?objs ! x)) ns)" by blast
  from Rin obtain x where x: "x \<in> set ns" "radius (?objs ! x) = Some R" by auto
  with circle_props(2)[OF wf ns] nn have R0: "0 \<le> R" by (auto simp: radii_nonneg_def)
  let ?r = "(real (length ns) * R) / (2 * pi) + R"
  have pn: "placeNodes ?objs ?r (2 * pi / real (length ns)) 0 ns [] = circleNodes ?objs ns ?r"
    using placeNodes_eq[OF circle_props(1)[OF wf ns], of "[]" ?r "2 * pi / real (length ns)" 0]
    by (simp add: circleNodes_def)
  have cc: "createCircle g = fillEdges ((newGraphLayout g)\<lparr>layout_nodes := circleNodes ?objs ns ?r\<rparr>)"
    using ne R ns pn by (simp add: createCircle_def Let_def)
  show ?thesis using R R0 cc by blast
qed

lemma createCircle_Inr_D:
  assumes rd: "ready g" and ne: "nodes g \<noteq> []" and c: "createCircle g = Inr l"
  shows "\<exists>ns R. circleSortedNodes g = Inr ns
           \<and> jsMaxDefined (map (\<lambda>x. radius (objects g ! x)) ns) = Some R
           \<and> 0 \<le> R
           \<and> graph l = g
           \<and> layout_nodes l = circleNodes (objects g) ns ((real (length ns) * R) / (2 * pi) + R)
           \<and> fillEdges l = Inr l"
proof -
  from c ne obtain ns where ns: "circleSortedNodes g = Inr ns"
    by (auto simp: createCircle_def split: sum.splits)
  from createCircle_main[OF rd ne ns] obtain R where
    R: "jsMaxDefined (map (\<lambda>x. radius (objects g ! x)) ns) = Some R" "0 \<le> R"
    and cc: "createCircle g = fillEdges ((newGraphLayout g)
                \<lparr>layout_nodes := circleNodes (objects g) ns
                                   ((real (length ns) * R) / (2 * pi) + R)\<rparr>)" by blast
  from cc c have l: "fillEdges ((newGraphLayout g)
                \<lparr>layout_nodes := circleNodes (objects g) ns
                                   ((real (length ns) * R) / (2 * pi) + R)\<rparr>) = Inr l" by simp
  have "graph l = g" using fillEdges_Inr_D(1)[OF l] by (simp add: newGraphLayout_def)
  moreover have "layout_nodes l = circleNodes (objects g) ns ((real (length ns) * R) / (2 * pi) + R)"
    using fillEdges_Inr_D(2)[OF l] by simp
  moreover have "fillEdges l = Inr l" by (rule fillEdges_fixed[OF l])
  ultimately show ?thesis using ns R by blast
qed

lemma createCircle_layout_of:
  assumes rd: "ready g" and ne: "nodes g \<noteq> []" and c: "createCircle g = Inr l"
  shows "layout_of g l \<and> keyed l"
proof -
  from rd have wf: "wf_graph g" by (simp add: ready_def)
  from createCircle_Inr_D[OF rd ne c] obtain ns R where ns: "circleSortedNodes g = Inr ns" and
    l: "graph l = g" "layout_nodes l = circleNodes (objects g) ns ((real (length ns) * R) / (2 * pi) + R)"
       "fillEdges l = Inr l" by auto
  have k: "map fst (layout_nodes l) = map (idOf (objects g)) ns"
    unfolding l(2) by (rule circleNodes_keys)
  have 1: "set (map fst (layout_nodes l)) = set (map fst (nodes g))"
    unfolding k using circle_props(3)[OF wf ns] by simp
  have 2: "map edge (layout_edges l) = edges g" using fillEdges_edges[OF l(3)] l(1) by simp
  have 3: "distinct (map fst (layout_nodes l))" unfolding k by (rule circle_props(1)[OF wf ns])
  have 4: "\<forall>p \<in> set (layout_nodes l). designerId (node (snd p)) = fst p"
    unfolding l(2) circleNodes_def by (auto simp: newLayoutNode_node)
  show ?thesis unfolding layout_of_def keyed_def using l(1,3) 1 2 3 4 by simp
qed





subsection \<open>The circular layout of two joined boxes\<close>

lemma sqrt25: "sqrt 25 = 5"
  using real_sqrt_abs[of 5] by simp

lemma g_pair_eval:
  "g_pair = \<lparr>objects = [node_a, node_b], nodes = [(''a'', 0), (''b'', 1)],
             edges = [\<lparr>source = Obj 0, target = Obj 1\<rparr>]\<rparr>"
  by (simp add: g_pair_def build_def emptyGraph_def addNode_def addEdge_def edgeJoins_def
      nodeAt_def dict_get_def
      initialize_def initStep_def initNode_def scanEdge_def node_initialize_def newGraphNode_def
      node_a_def node_b_def sqrt25)

lemma circle_pair: "circleSortedNodes g_pair = Inr [0, 1]"
  by (simp add: circleSortedNodes_def g_pair_eval values_of_def sortBy_def nodeBefore_def
      node_a_def node_b_def)

lemma dist_pair:
  "distanceTo (newLayoutNode node_a 0 (5 / pi + 5)) (newLayoutNode node_b 0 (- (5 / pi) - 5)) = 10 / pi + 2"
proof -
  have p: "0 < 5 / pi" by simp
  show ?thesis using p
    by (simp add: distanceTo_def rectangleDistance_def newLayoutNode_def node_a_def node_b_def Let_def max_def)
qed

lemma node_ab_fields:
  "designerId node_a = ''a''" "designerId node_b = ''b''"
  "radius node_a = Some 5" "radius node_b = Some 5"
  by (simp_all add: node_a_def node_b_def)

lemma createCircle_pair: "createCircle g_pair = Inr l_pair"
proof -
  have o: "objects g_pair = [node_a, node_b]" and n: "nodes g_pair = [(''a'', 0), (''b'', 1)]"
    and e: "edges g_pair = [\<lparr>source = Obj 0, target = Obj 1\<rparr>]" by (simp_all add: g_pair_eval)
  have js: "jsMaxDefined (map (\<lambda>x. radius (objects g_pair ! x)) [0, 1]) = Some 5"
    by (simp add: jsMaxDefined_def o node_ab_fields)
  have pl: "placeNodes (objects g_pair) (5 / pi + 5) pi 0 [0, 1] [] =
      [(''a'', newLayoutNode node_a 0 (5 / pi + 5)), (''b'', newLayoutNode node_b 0 (- (5 / pi) - 5))]"
    by (simp add: o node_ab_fields)
  have cc: "createCircle g_pair = fillEdges ((newGraphLayout g_pair)
      \<lparr>layout_nodes := [(''a'', newLayoutNode node_a 0 (5 / pi + 5)),
                        (''b'', newLayoutNode node_b 0 (- (5 / pi) - 5))]\<rparr>)"
    by (simp add: createCircle_def circle_pair jsMaxDefined_def n o node_ab_fields Let_def)
  show ?thesis
    unfolding cc
    by (simp add: fillEdges_def layoutEdge_def dict_get_def newGraphLayout_def o e node_ab_fields
        dist_pair l_pair_def)
qed

subsection \<open>The ordered nodes after an identifier was added again\<close>





subsection \<open>Fresh edge lists and the discrete refinement\<close>

lemma fresh_edges_D:
  assumes "fillEdges l = Inr l" and "e \<in> set (layout_edges l)"
  shows "edge_length e = rectangleDistance (source_node e) (target_node e)"
    and "map_of (layout_nodes l) (endId (objects (graph l)) (source (edge e))) = Some (source_node e)"
    and "map_of (layout_nodes l) (endId (objects (graph l)) (target (edge e))) = Some (target_node e)"
proof -
  from fillEdges_Inr_D(3)[OF assms(1)] assms(2)
  obtain ge where ge: "layoutEdge l ge = Inr e"
    by (auto simp: list_all2_conv_all_nth in_set_conv_nth)
  from layoutEdge_Inr_D[OF ge]
  show "edge_length e = rectangleDistance (source_node e) (target_node e)"
    and "map_of (layout_nodes l) (endId (objects (graph l)) (source (edge e))) = Some (source_node e)"
    and "map_of (layout_nodes l) (endId (objects (graph l)) (target (edge e))) = Some (target_node e)"
    by simp_all
qed

lemma createCircle_fresh:
  assumes "createCircle g = Inr l"
  shows "fillEdges l = Inr l \<or> layout_edges l = []"
proof (cases "nodes g = []")
  case True
  with assms show ?thesis by (auto simp: createCircle_def newGraphLayout_def)
next
  case False
  with assms obtain m where "fillEdges m = Inr l"
    by (auto simp: createCircle_def Let_def split: option.splits sum.splits)
  then show ?thesis by (simp add: fillEdges_fixed)
qed

lemma changePositions_fresh: "changePositions f l0 = Inr l \<Longrightarrow> fillEdges l = Inr l"
  by (rule changePositions_Inr_D(3))

lemma fixViewBox_cases:
  "\<exists>f. fixViewBox l = changePositions f l"
  by (auto simp: fixViewBox_def split: option.splits)


lemma tryMoveNode_cases:
  assumes "c \<in> set (tryMoveNode l n)"
  shows "\<exists>f. c = changePositions (\<lambda>x. Inr (f x)) l \<and> (\<forall>x. node (f x) = node x)"
proof -
  have k: "\<And>dx dy. \<forall>x. node (if x = n then translate n dx dy else x) = node x"
    by (simp add: translate_node)
  from assms show ?thesis unfolding tryMoveNode_def using k by auto
qed

lemma length_tryMoveNode: "length (tryMoveNode l n) = 8"
  by (simp add: tryMoveNode_def)

lemma considerItem_Some: "considerItem best item \<noteq> None"
  by (auto simp: considerItem_def Let_def split: option.splits)

lemma considerItem_cases:
  "considerItem best item = best \<or> considerItem best item = Some (item, score item)"
  by (auto simp: considerItem_def Let_def split: option.splits)

lemma foldl_considerItem_cases:
  "foldl considerItem best items = best \<or>
   (\<exists>i \<in> set items. foldl considerItem best items = Some (i, score i))"
proof (induction items arbitrary: best)
  case Nil show ?case by simp
next
  case (Cons i items)
  from Cons[of "considerItem best i"] considerItem_cases[of best i] show ?case by auto
qed

lemma foldl_considerItem_Some:
  "items \<noteq> [] \<or> best \<noteq> None \<Longrightarrow> foldl considerItem best items \<noteq> None"
proof (induction items arbitrary: best)
  case Nil then show ?case by simp
next
  case (Cons i items)
  from Cons.IH[of "considerItem best i"] considerItem_Some[of best i] show ?case by simp
qed

lemma mapE_id_set: "mapE (\<lambda>c. c) cs = Inr items \<Longrightarrow> i \<in> set items \<Longrightarrow> Inr i \<in> set cs"
proof (induction cs arbitrary: items)
  case Nil then show ?case by simp
next
  case (Cons c cs)
  then show ?case by (auto split: sum.splits)
qed

lemma mapE_id_length: "mapE (\<lambda>c. c) cs = Inr items \<Longrightarrow> length items = length cs"
  by (drule mapE_Inr_D) (simp add: list_all2_lengthD)

lemma tryMoveLoop_result:
  assumes "tryMoveLoop l ns best = Inr (Some (r, sc))"
  shows "best = Some (r, sc) \<or> (\<exists>n \<in> set ns. Inr r \<in> set (tryMoveNode l n) \<and> sc = score r)"
  using assms
proof (induction ns arbitrary: best)
  case Nil then show ?case by simp
next
  case (Cons n ns)
  from Cons.prems obtain items where it: "mapE (\<lambda>c. c) (tryMoveNode l n) = Inr items"
    and rest: "tryMoveLoop l ns (foldl considerItem best items) = Inr (Some (r, sc))"
    by (auto split: sum.splits)
  from Cons.IH[OF rest] foldl_considerItem_cases[of best items] mapE_id_set[OF it]
  show ?case by auto
qed

lemma tryMoveLoop_total:
  assumes "placed l"
  shows "\<exists>b. tryMoveLoop l ns best = Inr b \<and> (ns \<noteq> [] \<or> best \<noteq> None \<longrightarrow> b \<noteq> None)"
proof (induction ns arbitrary: best)
  case Nil show ?case by simp
next
  case (Cons n ns)
  have "\<forall>c \<in> set (tryMoveNode l n). \<exists>y. c = Inr y"
    using tryMoveNode_cases[of _ l n] changePositions_total_pure[OF assms] by metis
  from mapE_total[OF this] obtain items where it: "mapE (\<lambda>c. c) (tryMoveNode l n) = Inr items" by blast
  from mapE_id_length[OF it] have "items \<noteq> []" by (auto simp: length_tryMoveNode)
  then have s: "foldl considerItem best items \<noteq> None" by (simp add: foldl_considerItem_Some)
  from Cons[of "foldl considerItem best items"] s it show ?case by auto
qed

lemma tryMoveElement_candidate:
  assumes "tryMoveElement l = Inr (Some r)"
  shows "\<exists>n \<in> set (values_of (layout_nodes l)). Inr r \<in> set (tryMoveNode l n)"
proof -
  from assms obtain sc where "tryMoveLoop l (values_of (layout_nodes l)) None = Inr (Some (r, sc))"
    by (auto simp: tryMoveElement_def split: sum.splits option.splits)
  from tryMoveLoop_result[OF this] show ?thesis by auto
qed

lemma tryMoveElement_total:
  assumes "placed l" and "layout_nodes l \<noteq> []"
  shows "\<exists>r. tryMoveElement l = Inr (Some r)"
proof -
  from assms(2) have "values_of (layout_nodes l) \<noteq> []" by (simp add: values_of_def)
  with tryMoveLoop_total[OF assms(1), of "values_of (layout_nodes l)" None]
  show ?thesis by (auto simp: tryMoveElement_def split: option.splits)
qed

lemma tryMoveElement_empty: "layout_nodes l = [] \<Longrightarrow> tryMoveElement l = Inr None"
  by (simp add: tryMoveElement_def values_of_def)

lemma tryMoveNode_layout_of:
  assumes "layout_of g l" and "Inr l' \<in> set (tryMoveNode l n)"
  shows "layout_of g l'"
  using tryMoveNode_cases[OF assms(2)] changePositions_layout_of[OF assms(1)] by metis

lemma tryMoveElement_layout_of:
  assumes "layout_of g l" and "tryMoveElement l = Inr (Some l')"
  shows "layout_of g l'"
  using tryMoveElement_candidate[OF assms(2)] tryMoveNode_layout_of[OF assms(1)] by blast


lemma score_Num: "layout_nodes l \<noteq> [] \<Longrightarrow> \<exists>a. score l = Num a"
proof -
  assume "layout_nodes l \<noteq> []"
  then obtain p ps where "layout_nodes l = p # ps" by (cases "layout_nodes l") auto
  then show ?thesis by (simp add: score_def values_of_def Let_def)
qed

lemma score_empty: "layout_nodes l = [] \<Longrightarrow> score l = NaN"
  by (simp add: score_def values_of_def)

lemma layout_of_nonempty: "layout_of g l \<Longrightarrow> nodes g \<noteq> [] \<Longrightarrow> layout_nodes l \<noteq> []"
  by (auto simp: layout_of_def)

lemma moveLoop_stop:
  assumes "tryMoveElement l = Inr (Some c)" and "score c = Num b"
    and "a - b < MINIMAL_SCORE_BENEFIT"
  shows "moveLoop (Suc k) l (Num a) = Inr l"
  using assms by (simp add: Let_def)

lemma moveLoop_go:
  assumes "tryMoveElement l = Inr (Some c)" and "score c = Num b"
    and "\<not> a - b < MINIMAL_SCORE_BENEFIT"
  shows "moveLoop (Suc k) l (Num a) = moveLoop k c (Num b)"
  using assms by (simp add: Let_def)

lemma moveLoop_chain:
  assumes "layout_of g l" and "nodes g \<noteq> []"
  shows "\<exists>ms. length ms \<le> k \<and> accepted l ms \<and> moveLoop k l (score l) = Inr (last (l # ms))
            \<and> (length ms = k \<or> insufficient (last (l # ms)))"
  using assms(1)
proof (induction k arbitrary: l)
  case 0
  have "length [] \<le> (0::nat) \<and> accepted l [] \<and> moveLoop 0 l (score l) = Inr (last (l # []))
        \<and> (length ([]::GraphLayout list) = 0 \<or> insufficient (last (l # [])))" by simp
  then show ?case by (rule exI[of _ "[]"])
next
  case (Suc k)
  have ne: "layout_nodes l \<noteq> []" by (rule layout_of_nonempty[OF Suc.prems assms(2)])
  from tryMoveElement_total[OF layout_of_placed[OF Suc.prems] ne]
  obtain c where c: "tryMoveElement l = Inr (Some c)" by blast
  have lc: "layout_of g c" by (rule tryMoveElement_layout_of[OF Suc.prems c])
  from score_Num[OF ne] obtain a where a: "score l = Num a" by blast
  from score_Num[OF layout_of_nonempty[OF lc assms(2)]] obtain b where b: "score c = Num b" by blast
  show ?case
  proof (cases "a - b < MINIMAL_SCORE_BENEFIT")
    case True
    have m: "moveLoop (Suc k) l (score l) = Inr l" unfolding a by (rule moveLoop_stop[OF c b True])
    have i: "insufficient l" unfolding insufficient_def using c a b True by blast
    have "length [] \<le> Suc k \<and> accepted l [] \<and> moveLoop (Suc k) l (score l) = Inr (last (l # []))
        \<and> (length ([]::GraphLayout list) = Suc k \<or> insufficient (last (l # [])))"
      using m i by simp
    then show ?thesis by (rule exI[of _ "[]"])
  next
    case False
    have m: "moveLoop (Suc k) l (score l) = moveLoop k c (score c)"
      unfolding a b by (rule moveLoop_go[OF c b False])
    from Suc.IH[OF lc] obtain ms where ms: "length ms \<le> k" "accepted c ms"
      "moveLoop k c (score c) = Inr (last (c # ms))"
      "length ms = k \<or> insufficient (last (c # ms))" by blast
    from False have "b + MINIMAL_SCORE_BENEFIT \<le> a" by simp
    with a b have "\<exists>a b. score l = Num a \<and> score c = Num b \<and> b + MINIMAL_SCORE_BENEFIT \<le> a" by blast
    with c ms(2) have acc: "accepted l (c # ms)" by (simp only: accepted.simps simp_thms)
    have l1: "last (l # c # ms) = last (c # ms)" by simp
    have r: "moveLoop (Suc k) l (score l) = Inr (last (l # c # ms))"
      unfolding l1 m by (rule ms(3))
    have len: "length (c # ms) \<le> Suc k" using ms(1) by simp
    have fin: "length (c # ms) = Suc k \<or> insufficient (last (l # c # ms))"
    proof (cases "length ms = k")
      case True then show ?thesis by simp
    next
      case False
      with ms(4) have "insufficient (last (c # ms))" by blast
      then show ?thesis unfolding l1 by (rule disjI2)
    qed
    from len acc r fin have "length (c # ms) \<le> Suc k \<and> accepted l (c # ms)
        \<and> moveLoop (Suc k) l (score l) = Inr (last (l # c # ms))
        \<and> (length (c # ms) = Suc k \<or> insufficient (last (l # c # ms)))" by (intro conjI)
    then show ?thesis by (rule exI[of _ "c # ms"])
  qed
qed

lemma springyStep_empty: "springyStep emptyLayout = Inr emptyLayout"
  by (simp add: springyStep_def stepForces_def applyHooksLaw_def applyCoulombsLaw_def
      applyGravity_def values_of_def changePositions_def fillEdges_def emptyLayout_def
      newGraphLayout_def emptyGraph_def mapValues_def)


lemma springyLoop_empty: "springyLoop k emptyLayout = Inr emptyLayout"
  by (induction k) (simp_all add: springyStep_empty)

lemma fixViewBox_empty: "fixViewBox emptyLayout = Inr emptyLayout"
  by (simp add: fixViewBox_def changePositions_def fillEdges_def emptyLayout_def
      newGraphLayout_def emptyGraph_def mapValues_def values_of_def)

lemma moveLoop_empty: "moveLoop (Suc k) emptyLayout sc = Inl TypeError"
  by (simp add: tryMoveElement_empty emptyLayout_def newGraphLayout_def)

subsection \<open>Claims about layouts and the refinement loop\<close>

text \<open>
  C2. For the empty graph, the circular initial layout, the relaxation pass and the
  discrete refinement loop each return an empty layout without raising an error. The
  source does so for \<^verbatim>\<open>createCircle\<close> (by its guard) and for \<^verbatim>\<open>springyAlg\<close> (its loops run
  over nothing). It does not for \<^verbatim>\<open>doMoveSteps\<close>: \<^verbatim>\<open>tryMoveElement\<close> has no candidate and
  returns \<^verbatim>\<open>null\<close>, and the next statement, \<^verbatim>\<open>res.score()\<close>, throws a TypeError. The theorem
  evaluates the three entry points on the empty graph.
\<close>

theorem C2_empty_graph:
  "initialize emptyGraph = emptyGraph
   \<and> createCircle emptyGraph = Inr emptyLayout
   \<and> layout_nodes emptyLayout = [] \<and> layout_edges emptyLayout = []
   \<and> springyAlg emptyLayout = Inr emptyLayout
   \<and> score emptyLayout = NaN
   \<and> tryMoveElement emptyLayout = Inr None
   \<and> doMoveSteps emptyLayout = Inl TypeError"
proof -
  have 1: "initialize emptyGraph = emptyGraph" by (simp add: initialize_def emptyGraph_def)
  have 2: "createCircle emptyGraph = Inr emptyLayout"
    by (simp add: createCircle_def emptyLayout_def emptyGraph_def)
  have 3: "layout_nodes emptyLayout = []" "layout_edges emptyLayout = []"
    by (simp_all add: emptyLayout_def newGraphLayout_def)
  have 4: "springyAlg emptyLayout = Inr emptyLayout" by (simp add: springyAlg_def springyLoop_empty)
  have 5: "score emptyLayout = NaN" by (rule score_empty[OF 3(1)])
  have 6: "tryMoveElement emptyLayout = Inr None" by (rule tryMoveElement_empty[OF 3(1)])
  have c: "MOVE_STEP_COUNT = Suc 999" by (simp add: MOVE_STEP_COUNT_def)
  have 7: "doMoveSteps emptyLayout = Inl TypeError"
    unfolding doMoveSteps_def c by (rule moveLoop_empty)
  from 1 2 3 4 5 6 7 show ?thesis by simp
qed

text \<open>
  C5. For a layout \<open>l\<close> of a graph with at least one node, \<^verbatim>\<open>doMoveSteps\<close> returns: there
  is a run \<open>ms\<close> of at most 1000 accepted steps from \<open>l\<close>, each the layout \<^verbatim>\<open>tryMoveElement\<close>
  picks from its predecessor and each lowering the score by at least 1, and the result is
  the last accepted layout (\<open>l\<close> itself when none was accepted). Either all 1000 steps were
  accepted, or the step from the returned layout gains less than 1 and is discarded.
\<close>

theorem C5_refinement_loop:
  assumes "layout_of g l" and "nodes g \<noteq> []"
  shows "\<exists>ms. length ms \<le> 1000 \<and> accepted l ms \<and> doMoveSteps l = Inr (last (l # ms))
            \<and> (length ms = 1000 \<or> insufficient (last (l # ms)))"
  using moveLoop_chain[OF assms, of MOVE_STEP_COUNT]
  by (simp add: doMoveSteps_def MOVE_STEP_COUNT_def)

text \<open>
  C1, as stated, fails: the cached length of a layout edge is \<^verbatim>\<open>n1.distanceTo(n2)\<close>, the
  distance between the two boxes, not between their centers. For two boxes of 6 by 8
  joined by an edge, \<^verbatim>\<open>createCircle\<close> puts the centers \<open>10 / pi + 10\<close> apart and caches
  the length \<open>10 / pi + 2\<close>.
\<close>

theorem C1_counterexample:
  "createCircle g_pair = Inr l_pair
   \<and> map edge_length (layout_edges l_pair) = [10 / pi + 2]
   \<and> map centerDistance (layout_edges l_pair) = [10 / pi + 10]"
proof -
  let ?e = "\<lparr>edge = \<lparr>source = Obj 0, target = Obj 1\<rparr>, edge_length = 10 / pi + 2,
             source_node = newLayoutNode node_a 0 (5 / pi + 5),
             target_node = newLayoutNode node_b 0 (- (5 / pi) - 5)\<rparr>"
  have le: "layout_edges l_pair = [?e]" by (simp add: l_pair_def)
  have p: "0 \<le> 10 / pi + 10" by simp
  have s: "subtract (position (source_node ?e)) (position (target_node ?e)) = \<lparr>vx = 0, vy = 10 / pi + 10\<rparr>"
    by (simp add: subtract_def newLayoutNode_def)
  have "magnitude \<lparr>vx = 0, vy = 10 / pi + 10\<rparr> = \<bar>10 / pi + 10\<bar>"
    by (simp add: magnitude_def del: divide_nonneg_nonneg)
  with p have "centerDistance ?e = 10 / pi + 10"
    unfolding centerDistance_def s by (simp only: abs_of_nonneg)
  then show ?thesis unfolding le using createCircle_pair by simp
qed

text \<open>
  C1, amended. In every layout that is built (by \<^verbatim>\<open>createCircle\<close>, by a relaxation step, by
  \<^verbatim>\<open>fixViewBox\<close>, as a candidate or as the pick of a discrete move, or by any other
  \<^verbatim>\<open>changePositions\<close>), the cached length of each layout edge is the rectangle distance
  between its two end nodes, and these are the nodes the same layout holds for the source
  and the target of the graph edge.
\<close>

theorem C1_edge_length:
  assumes "createCircle g = Inr l \<or> springyStep l0 = Inr l \<or> fixViewBox l0 = Inr l
         \<or> Inr l \<in> set (tryMoveNode l0 n) \<or> tryMoveElement l0 = Inr (Some l)
         \<or> changePositions f l0 = Inr l"
    and "e \<in> set (layout_edges l)"
  shows "edge_length e = rectangleDistance (source_node e) (target_node e)
       \<and> map_of (layout_nodes l) (endId (objects (graph l)) (source (edge e))) = Some (source_node e)
       \<and> map_of (layout_nodes l) (endId (objects (graph l)) (target (edge e))) = Some (target_node e)"
proof -
  have t: "\<And>m. Inr l \<in> set (tryMoveNode l0 m) \<Longrightarrow> fillEdges l = Inr l"
    using tryMoveNode_cases changePositions_fresh by metis
  have "fillEdges l = Inr l \<or> layout_edges l = []"
    using assms(1) createCircle_fresh[of g l] changePositions_fresh[of _ l0 l]
      fixViewBox_cases[of l0] t tryMoveElement_candidate[of l0 l]
    by (auto simp: springyStep_def split: sum.splits)
  with assms(2) have "fillEdges l = Inr l" by auto
  from fresh_edges_D[OF this assms(2)] show ?thesis by simp
qed

theorem C1_edge_length_witness:
  "createCircle g_pair = Inr l_pair
   \<and> layout_edges l_pair \<noteq> []
   \<and> edge_length (hd (layout_edges l_pair))
       = rectangleDistance (source_node (hd (layout_edges l_pair))) (target_node (hd (layout_edges l_pair)))"
proof -
  have n: "layout_edges l_pair \<noteq> []" by (simp add: l_pair_def)
  then have e: "hd (layout_edges l_pair) \<in> set (layout_edges l_pair)" by (rule hd_in_set)
  have c: "createCircle g_pair = Inr l_pair \<or> springyStep l_pair = Inr l_pair \<or> fixViewBox l_pair = Inr l_pair
         \<or> Inr l_pair \<in> set (tryMoveNode l_pair (newLayoutNode node_a 0 0)) \<or> tryMoveElement l_pair = Inr (Some l_pair)
         \<or> changePositions (\<lambda>n. Inr n) l_pair = Inr l_pair"
    using createCircle_pair by blast
  from C1_edge_length[OF c e] createCircle_pair n show ?thesis by blast
qed




lemma layout_of_pair: "layout_of g_pair l_pair"
proof -
  have "ready g_pair" unfolding g_pair_def by (rule ready_initialize_build)
  moreover have "nodes g_pair \<noteq> []" by (simp add: g_pair_eval)
  ultimately show ?thesis using createCircle_layout_of[OF _ _ createCircle_pair] by blast
qed


theorem C5_refinement_loop_witness:
  "layout_of g_pair l_pair \<and> nodes g_pair \<noteq> []
   \<and> (\<exists>ms. length ms \<le> 1000 \<and> accepted l_pair ms
          \<and> doMoveSteps l_pair = Inr (last (l_pair # ms))
          \<and> (length ms = 1000 \<or> insufficient (last (l_pair # ms))))"
proof -
  have n: "nodes g_pair \<noteq> []" by (simp add: g_pair_eval)
  from C5_refinement_loop[OF layout_of_pair n] layout_of_pair n show ?thesis by (intro conjI)
qed

subsection \<open>Positions on the circle\<close>














subsection \<open>Vectors, clamping and repulsion\<close>




















































subsection \<open>One relaxation step on the two joined boxes\<close>










lemma accumulated_Some: "F i = Some f \<Longrightarrow> accumulated F i = f"
  by (simp add: accumulated_def)





end
